theory Spec2Isabelle
  imports Main
begin

section \<open>Text and character classes\<close>

text \<open>
  The recognised text of a page is a Python \<open>str\<close>. It is modelled as a \<open>string\<close>
  whose characters are the code points below 256; the classes below are the ones
  Python's \<open>re\<close> module and \<open>str.strip\<close> use on those code points:
  \<open>\s\<close> and \<open>strip\<close> share one whitespace set, \<open>\d\<close> is \<open>0\<close> to \<open>9\<close>, and \<open>\w\<close> is
  the alphanumeric code points and the underscore.
\<close>

definition code :: "char \<Rightarrow> nat" where
  "code c = of_char c"

definition space_code :: "nat \<Rightarrow> bool" where
  "space_code n = ((9 \<le> n \<and> n \<le> 13) \<or> (28 \<le> n \<and> n \<le> 32) \<or> n = 133 \<or> n = 160)"

definition digit_code :: "nat \<Rightarrow> bool" where
  "digit_code n = (48 \<le> n \<and> n \<le> 57)"

definition upper_code :: "nat \<Rightarrow> bool" where
  "upper_code n = (65 \<le> n \<and> n \<le> 90)"

definition lower_code :: "nat \<Rightarrow> bool" where
  "lower_code n = (97 \<le> n \<and> n \<le> 122)"

definition word_code :: "nat \<Rightarrow> bool" where
  "word_code n =
     (digit_code n \<or> upper_code n \<or> lower_code n \<or> n = 95
      \<or> n = 170 \<or> n = 178 \<or> n = 179 \<or> n = 181 \<or> n = 185 \<or> n = 186
      \<or> (188 \<le> n \<and> n \<le> 190) \<or> (192 \<le> n \<and> n \<le> 214)
      \<or> (216 \<le> n \<and> n \<le> 246) \<or> 248 \<le> n)"

definition is_space :: "char \<Rightarrow> bool" where
  "is_space c = space_code (code c)"

definition is_digit :: "char \<Rightarrow> bool" where
  "is_digit c = digit_code (code c)"

definition is_upper :: "char \<Rightarrow> bool" where
  "is_upper c = upper_code (code c)"

definition is_lower :: "char \<Rightarrow> bool" where
  "is_lower c = lower_code (code c)"

definition is_word :: "char \<Rightarrow> bool" where
  "is_word c = word_code (code c)"

text \<open>
  \<open>re.IGNORECASE\<close> on a literal character of the patterns: on the code points below
  256 a letter of the patterns matches its two ASCII cases and nothing else, and every
  other character of the patterns matches itself. \<open>ci_prefix lit s\<close>: the text \<open>s\<close>
  starts with the literal \<open>lit\<close>, compared character by character, ignoring case.
\<close>

definition fold_code :: "nat \<Rightarrow> nat" where
  "fold_code n = (if upper_code n then n + 32 else n)"

definition ci_eq :: "char \<Rightarrow> char \<Rightarrow> bool" where
  "ci_eq l c = (fold_code (code l) = fold_code (code c))"

fun ci_prefix :: "string \<Rightarrow> string \<Rightarrow> bool" where
  "ci_prefix [] s = True"
| "ci_prefix (l # lit) [] = False"
| "ci_prefix (l # lit) (c # s) = (if ci_eq l c then ci_prefix lit s else False)"

text \<open>
  \<open>str.upper\<close>, character by character. On the code points below 256 the small
  letters are \<open>a\<close> to \<open>z\<close> and the code points 224 to 254 other than 247, whose capital
  lies 32 below; the capital of the sharp s (223) is the two letters \<open>SS\<close>; the
  capitals of the micro sign (181) and of the y with diaeresis (255) are the code
  points 924 and 376, which no text of this model holds, so the capital of a text with
  one of the two is \<open>None\<close>; every other character is its own capital.
\<close>

definition upper_char :: "char \<Rightarrow> string option" where
  "upper_char c =
     (let n = code c in
      if lower_code n \<or> (224 \<le> n \<and> n \<le> 254 \<and> n \<noteq> 247) then Some [char_of (n - 32)]
      else if n = 223 then Some ''SS''
      else if n = 181 \<or> n = 255 then None
      else Some [c])"

fun upper :: "string \<Rightarrow> string option" where
  "upper [] = Some []"
| "upper (c # s) =
     (case upper_char c of
        None \<Rightarrow> None
      | Some u \<Rightarrow> (case upper s of None \<Rightarrow> None | Some v \<Rightarrow> Some (u @ v)))"

declare upper.simps [simp del]

text \<open>
  \<open>\b\<close>: the position between \<open>prev\<close> and \<open>next\<close> (\<open>None\<close> at either end of the
  text) is a word boundary when exactly one side is a \<open>\w\<close> character.
\<close>

definition word_opt :: "char option \<Rightarrow> bool" where
  "word_opt p = (case p of None \<Rightarrow> False | Some c \<Rightarrow> is_word c)"

definition first_char :: "string \<Rightarrow> char option" where
  "first_char s = (case s of [] \<Rightarrow> None | c # _ \<Rightarrow> Some c)"

definition word_boundary :: "char option \<Rightarrow> string \<Rightarrow> bool" where
  "word_boundary prev s = (word_opt prev \<noteq> word_opt (first_char s))"

definition all_digits :: "string \<Rightarrow> bool" where
  "all_digits s = list_all is_digit s"

section \<open>The three patterns\<close>

text \<open>
  Each compiled pattern is embedded as the match attempt of \<open>re\<close> at one start
  position, \<open>prev\<close> being the character before that position. An attempt returns the
  captured groups and the number of characters the match consumed, and
  \<open>findall route_id_pattern text\<close> below is \<^verbatim>\<open>route_id_pattern.findall(text)\<close>.
  In the three patterns every repetition is followed by an item that no character of
  the repetition can start, so the greedy repetition takes the whole run and giving
  characters back never yields another match: the attempt is the single left-to-right
  reading below.
\<close>

text \<open>\<^verbatim>\<open>route_id_pattern = re.compile(r'\bRoute[:\s]*:?(\d{8})\b', re.IGNORECASE)\<close>\<close>

definition route_id_pattern :: "char option \<Rightarrow> string \<Rightarrow> (string \<times> nat) option" where
  "route_id_pattern prev s =
     (if word_boundary prev s \<and> ci_prefix ''Route'' s then
        let s2 = dropWhile (\<lambda>c. c = CHR '':'' \<or> is_space c) (drop 5 s);
            d = take 8 s2;
            s3 = drop 8 s2
        in if length d = 8 \<and> all_digits d \<and> word_boundary (Some (last d)) s3
           then Some (d, length s - length s3) else None
      else None)"

text \<open>
  The tail the two header patterns share: \<^verbatim>\<open>(\d{4})-([...]+)\<close>, with the class of the
  second group as a parameter. It returns the two groups and what follows the match.
\<close>

definition location_store_at :: "(char \<Rightarrow> bool) \<Rightarrow> string \<Rightarrow> ((string \<times> string) \<times> string) option" where
  "location_store_at cls s =
     (let loc = take 4 s; s5 = drop 4 s
      in if length loc = 4 \<and> all_digits loc \<and> take 1 s5 = ''-'' then
           let name = takeWhile cls (drop 1 s5); s6 = dropWhile cls (drop 1 s5)
           in if name \<noteq> [] then Some ((loc, name), s6) else None
         else None)"

text \<open>\<^verbatim>\<open>to_pattern = re.compile(r'\bTo\s+\d+\s+(\d{4})-([A-Za-z0-9\s\(\)]+)', re.IGNORECASE)\<close>\<close>

definition to_class :: "char \<Rightarrow> bool" where
  "to_class c =
     (is_upper c \<or> is_lower c \<or> is_digit c \<or> is_space c \<or> c = CHR ''('' \<or> c = CHR '')'')"

definition to_pattern :: "char option \<Rightarrow> string \<Rightarrow> ((string \<times> string) \<times> nat) option" where
  "to_pattern prev s =
     (if word_boundary prev s \<and> ci_prefix ''To'' s then
        let w1 = takeWhile is_space (drop 2 s); s2 = dropWhile is_space (drop 2 s);
            ds = takeWhile is_digit s2; s3 = dropWhile is_digit s2;
            w2 = takeWhile is_space s3; s4 = dropWhile is_space s3
        in if w1 \<noteq> [] \<and> ds \<noteq> [] \<and> w2 \<noteq> [] then
             (case location_store_at to_class s4 of
                None \<Rightarrow> None
              | Some (g, rest) \<Rightarrow> Some (g, length s - length rest))
           else None
      else None)"

text \<open>\<^verbatim>\<open>xdock_wh_pattern = re.compile(r'\bX-Dock WH\s*:\s*(\d{4})-([A-Za-z0-9\s]+)', re.IGNORECASE)\<close>\<close>

definition xdock_class :: "char \<Rightarrow> bool" where
  "xdock_class c = (is_upper c \<or> is_lower c \<or> is_digit c \<or> is_space c)"

definition xdock_wh_pattern :: "char option \<Rightarrow> string \<Rightarrow> ((string \<times> string) \<times> nat) option" where
  "xdock_wh_pattern prev s =
     (if word_boundary prev s \<and> ci_prefix ''X-Dock WH'' s then
        let s1 = dropWhile is_space (drop 9 s)
        in if take 1 s1 = '':'' then
             (case location_store_at xdock_class (dropWhile is_space (drop 1 s1)) of
                None \<Rightarrow> None
              | Some (g, rest) \<Rightarrow> Some (g, length s - length rest))
           else None
      else None)"

text \<open>
  \<open>pattern.findall(text)\<close>: the leftmost match from the current position, then on from
  where that match ended. None of the three patterns matches the empty string;
  \<open>max 1\<close> makes the scan advance for any \<open>at\<close>.
\<close>

function findall_from :: "(char option \<Rightarrow> string \<Rightarrow> ('g \<times> nat) option) \<Rightarrow> char option \<Rightarrow> string \<Rightarrow> 'g list" where
  "findall_from at prev [] = []"
| "findall_from at prev (c # cs) =
     (case at prev (c # cs) of
        None \<Rightarrow> findall_from at (Some c) cs
      | Some (g, n) \<Rightarrow>
          g # findall_from at (Some (last (take (max 1 n) (c # cs)))) (drop (max 1 n) (c # cs)))"
  by pat_completeness auto
termination
  by (relation "measure (\<lambda>(at, prev, s). length s)") auto

definition findall :: "(char option \<Rightarrow> string \<Rightarrow> ('g \<times> nat) option) \<Rightarrow> string \<Rightarrow> 'g list" where
  "findall at text = findall_from at None text"

section \<open>Store-name cleaning\<close>

text \<open>
  \<^verbatim>\<open>store_name = re.split(r'\sPhone', store_name)[0].strip()\<close>: element 0 of the split
  is the text before the leftmost match of \<^verbatim>\<open>\sPhone\<close> (the whole string when there is
  none). The split pattern is compiled without flags.
\<close>

fun split_phone_head :: "string \<Rightarrow> string" where
  "split_phone_head [] = []"
| "split_phone_head (c # cs) =
     (if is_space c \<and> take 5 cs = ''Phone'' then [] else c # split_phone_head cs)"

definition strip :: "string \<Rightarrow> string" where
  "strip s = rev (dropWhile is_space (rev (dropWhile is_space s)))"

definition clean_store_name :: "string \<Rightarrow> string" where
  "clean_store_name s = strip (split_phone_head s)"

section \<open>Orientation detection with retries\<close>

text \<open>
  The OCR engine, the image library and the PDF rasteriser are outside the repository;
  they are parameters of the model. An engine call may raise, so it returns
  \<open>exn + string\<close>; orientation detection is retried, so its outcome may differ from one
  attempt to the next and takes the attempt number. \<open>preprocess_image\<close> is a chain of
  four operations of the image library and is a parameter as well. Logging, console
  output and \<open>clean_temp_files\<close> are taken to return normally and are not part of the
  model; engine calls and sleeps are recorded as events.
\<close>

datatype exn = TesseractError | AttributeError | UnboundLocalError | ValueError | PDFError

datatype 'img event = OsdCall nat | Sleep nat | OcrCall 'img

record 'img engine =
  image_to_osd :: "'img \<Rightarrow> nat \<Rightarrow> exn + string"
  image_to_string :: "'img \<Rightarrow> exn + string"
  rotate :: "'img \<Rightarrow> int \<Rightarrow> 'img"
  preprocess_image :: "'img \<Rightarrow> 'img"
  convert_from_path :: "string \<Rightarrow> exn + 'img list"

text \<open>
  \<^verbatim>\<open>for attempt in range(retries)\<close>: \<open>left\<close> counts the attempts still to make. The
  name \<open>e\<close> is unbound once the \<open>except\<close> clause that bound it is left, so the final
  \<^verbatim>\<open>raise e\<close> raises \<open>UnboundLocalError\<close>.
\<close>

fun osd_attempts :: "('img \<Rightarrow> nat \<Rightarrow> exn + string) \<Rightarrow> 'img \<Rightarrow> nat \<Rightarrow> nat \<Rightarrow> nat \<Rightarrow> (exn + string) \<times> 'img event list" where
  "osd_attempts osd img delay attempt 0 = (Inl UnboundLocalError, [])"
| "osd_attempts osd img delay attempt (Suc left) =
     (case osd img attempt of
        Inr out \<Rightarrow> (Inr out, [OsdCall attempt])
      | Inl e \<Rightarrow>
          (case osd_attempts osd img delay (Suc attempt) left of
             (r, evs) \<Rightarrow> (r, OsdCall attempt # Sleep delay # evs)))"

definition robust_image_to_osd :: "('img \<Rightarrow> nat \<Rightarrow> exn + string) \<Rightarrow> 'img \<Rightarrow> nat \<Rightarrow> nat \<Rightarrow> (exn + string) \<times> 'img event list" where
  "robust_image_to_osd osd img retries delay = osd_attempts osd img delay 0 retries"

text \<open>
  \<^verbatim>\<open>rotation = int(re.search(r'Rotate: (\d+)', osd).group(1))\<close>: without a match
  \<open>re.search\<close> returns \<open>None\<close> and \<open>.group\<close> raises \<open>AttributeError\<close>; \<open>int\<close> refuses a
  string of more than 4300 digits with \<open>ValueError\<close>.
\<close>

fun search_rotate :: "string \<Rightarrow> string option" where
  "search_rotate [] = None"
| "search_rotate (c # cs) =
     (if take 8 (c # cs) = ''Rotate: '' \<and> takeWhile is_digit (drop 8 (c # cs)) \<noteq> []
      then Some (takeWhile is_digit (drop 8 (c # cs)))
      else search_rotate cs)"

definition int_of_digits :: "string \<Rightarrow> nat" where
  "int_of_digits ds = foldl (\<lambda>a c. 10 * a + (code c - 48)) 0 ds"

definition osd_rotation :: "string \<Rightarrow> exn + nat" where
  "osd_rotation osd =
     (case search_rotate osd of
        None \<Rightarrow> Inl AttributeError
      | Some ds \<Rightarrow> if 4300 < length ds then Inl ValueError else Inr (int_of_digits ds))"

section \<open>The field extractor\<close>

text \<open>
  \<open>extract_info_from_page\<close> in three parts, in the order of the source: the orientation
  step (the inner \<open>try\<close>), the recognition passes with the 180-degree fallback, and the
  loop that pairs every route match with a location. The arguments \<open>pdf_path\<close> and
  \<open>page_number\<close> only reach the log and are left out.
\<close>

definition correct_orientation :: "('img, 'x) engine_scheme \<Rightarrow> 'img \<Rightarrow> 'img \<times> 'img event list" where
  "correct_orientation eng page_image =
     (case robust_image_to_osd (image_to_osd eng) page_image 3 1 of
        (Inl e, evs) \<Rightarrow> (page_image, evs)
      | (Inr osd, evs) \<Rightarrow>
          (case osd_rotation osd of
             Inl e \<Rightarrow> (page_image, evs)
           | Inr rotation \<Rightarrow>
               (if rotation \<noteq> 0 then rotate eng page_image (- int rotation) else page_image,
                evs)))"

type_synonym header_match = "string \<times> string"

type_synonym page_matches = "string list \<times> header_match list \<times> header_match list"

definition pattern_pass :: "string \<Rightarrow> page_matches" where
  "pattern_pass text = (findall route_id_pattern text, findall to_pattern text, findall xdock_wh_pattern text)"

definition ocr_passes :: "('img, 'x) engine_scheme \<Rightarrow> 'img \<Rightarrow> (exn + page_matches) \<times> 'img event list" where
  "ocr_passes eng corrected_image =
     (case image_to_string eng corrected_image of
        Inl e \<Rightarrow> (Inl e, [OcrCall corrected_image])
      | Inr text \<Rightarrow>
          if findall route_id_pattern text \<noteq> [] then
            (Inr (pattern_pass text), [OcrCall corrected_image])
          else
            (let rotated_image = rotate eng corrected_image 180
             in (case image_to_string eng rotated_image of
                   Inl e \<Rightarrow> (Inl e, [OcrCall corrected_image, OcrCall rotated_image])
                 | Inr text_rotated \<Rightarrow>
                     (Inr (pattern_pass text_rotated),
                      [OcrCall corrected_image, OcrCall rotated_image]))))"

text \<open>
  The pairing loop. \<open>location\<close> is the \<open>if\<close>/\<open>elif\<close> on the two header lists (\<open>None\<close>
  when both are empty, where the source leaves \<open>location_number\<close> and \<open>store_name\<close>
  at \<open>None\<close>); \<^verbatim>\<open>if location_number and store_name\<close> is the truth value of two strings.
\<close>

definition location :: "header_match list \<Rightarrow> header_match list \<Rightarrow> header_match option" where
  "location to_matches xdock_wh_matches =
     (case xdock_wh_matches of
        x # _ \<Rightarrow> Some x
      | [] \<Rightarrow> (case to_matches of t # _ \<Rightarrow> Some t | [] \<Rightarrow> None))"

fun pair_routes :: "string list \<Rightarrow> header_match list \<Rightarrow> header_match list \<Rightarrow> (string \<times> string \<times> string) list" where
  "pair_routes [] to_matches xdock_wh_matches = []"
| "pair_routes (route_id # rest) to_matches xdock_wh_matches =
     (case location to_matches xdock_wh_matches of
        None \<Rightarrow> []
      | Some (location_number, store_name) \<Rightarrow>
          if location_number \<noteq> [] \<and> store_name \<noteq> []
          then [(route_id, location_number, clean_store_name store_name)] else [])
     @ pair_routes rest to_matches xdock_wh_matches"

definition extract_info_from_page :: "('img, 'x) engine_scheme \<Rightarrow> 'img \<Rightarrow> (string \<times> string \<times> string) list \<times> 'img event list" where
  "extract_info_from_page eng page_image =
     (case correct_orientation eng page_image of
        (corrected_image, evs1) \<Rightarrow>
          (case ocr_passes eng corrected_image of
             (Inl e, evs2) \<Rightarrow> ([], evs1 @ evs2)
           | (Inr (route_matches, to_matches, xdock_wh_matches), evs2) \<Rightarrow>
               (pair_routes route_matches to_matches xdock_wh_matches, evs1 @ evs2)))"

section \<open>The page pipeline and the batch driver\<close>

record result =
  RouteID :: string
  LocationNumber :: string
  StoreName :: string
  PDF :: string
  PageNumber :: nat

text \<open>\<open>os.path.basename\<close> and \<open>os.path.join\<close> of two components, in their POSIX flavour.\<close>

definition basename :: "string \<Rightarrow> string" where
  "basename p = rev (takeWhile (\<lambda>c. c \<noteq> CHR ''/'') (rev p))"

definition os_path_join :: "string \<Rightarrow> string \<Rightarrow> string" where
  "os_path_join a b =
     (if take 1 b = ''/'' then b
      else if a = [] \<or> last a = CHR ''/'' then a @ b
      else a @ ''/'' @ b)"

text \<open>
  The record of one match. \<^verbatim>\<open>route_id.upper()\<close> is taken of a capture of \<^verbatim>\<open>(\d{8})\<close>,
  which is its own capital (lemmas \<open>upper_digits\<close> and \<open>extract_info_upper\<close> below): the
  branch for a route identifier whose capital is no text of the model is never taken.
\<close>

definition make_result :: "string \<Rightarrow> nat \<Rightarrow> string \<times> string \<times> string \<Rightarrow> result" where
  "make_result pdf_path page_number m =
     (case m of (route_id, location_number, store_name) \<Rightarrow>
        \<lparr>RouteID = (case upper route_id of Some u \<Rightarrow> u | None \<Rightarrow> route_id),
         LocationNumber = location_number,
         StoreName = store_name, PDF = basename pdf_path, PageNumber = page_number\<rparr>)"

text \<open>\<^verbatim>\<open>for page_number, page in enumerate(pages, start=1)\<close>\<close>

fun page_loop :: "('img, 'x) engine_scheme \<Rightarrow> string \<Rightarrow> nat \<Rightarrow> 'img list \<Rightarrow> result list" where
  "page_loop eng pdf_path page_number [] = []"
| "page_loop eng pdf_path page_number (page # pages) =
     map (make_result pdf_path page_number)
       (fst (extract_info_from_page eng (preprocess_image eng page)))
     @ page_loop eng pdf_path (Suc page_number) pages"

definition extract_route_and_store_ids :: "('img, 'x) engine_scheme \<Rightarrow> string \<Rightarrow> result list" where
  "extract_route_and_store_ids eng pdf_path =
     (case convert_from_path eng pdf_path of
        Inl e \<Rightarrow> []
      | Inr pages \<Rightarrow> page_loop eng pdf_path 1 pages)"

text \<open>
  \<^verbatim>\<open>results_df.drop_duplicates(subset=['RouteID', 'LocationNumber', 'PDF', 'PageNumber'])\<close>
  keeps, for every key, the first row that has it; \<open>seen\<close> holds the keys of the rows
  already kept.
\<close>

definition subset_key :: "result \<Rightarrow> string \<times> string \<times> string \<times> nat" where
  "subset_key r = (RouteID r, LocationNumber r, PDF r, PageNumber r)"

fun drop_duplicates_from :: "(string \<times> string \<times> string \<times> nat) list \<Rightarrow> result list \<Rightarrow> result list" where
  "drop_duplicates_from seen [] = []"
| "drop_duplicates_from seen (r # rs) =
     (if subset_key r \<in> set seen then drop_duplicates_from seen rs
      else r # drop_duplicates_from (subset_key r # seen) rs)"

definition drop_duplicates :: "result list \<Rightarrow> result list" where
  "drop_duplicates rs = drop_duplicates_from [] rs"

text \<open>
  \<open>process_pdfs\<close>: \<open>pdf_files\<close> are the PDF files of the directory in the order in which
  \<open>imap_unordered\<close> delivers their results. \<open>Pool\<close> raises \<open>ValueError\<close> for fewer than
  one process.
\<close>

definition pool_size :: "nat \<Rightarrow> int" where
  "pool_size cpu_count = min (int cpu_count - 1) 4"

definition merge_results :: "('img, 'x) engine_scheme \<Rightarrow> string list \<Rightarrow> result list" where
  "merge_results eng pdf_files = concat (map (extract_route_and_store_ids eng) pdf_files)"

definition process_pdfs :: "('img, 'x) engine_scheme \<Rightarrow> nat \<Rightarrow> string list \<Rightarrow> exn + result list" where
  "process_pdfs eng cpu_count pdf_files =
     (if pool_size cpu_count < 1 then Inl ValueError
      else (let all_results = merge_results eng pdf_files
            in if all_results \<noteq> [] then Inr (drop_duplicates all_results) else Inr []))"

section \<open>Exporting matched pages\<close>

text \<open>\<open>str\<close> of a count, in decimal.\<close>

definition digit_char :: "nat \<Rightarrow> char" where
  "digit_char d = char_of (48 + d)"

fun str_nat :: "nat \<Rightarrow> string" where
  "str_nat n = (if n < 10 then [digit_char n] else str_nat (n div 10) @ [digit_char (n mod 10)])"

declare str_nat.simps [simp del]

definition matched_pages_dir :: string where
  "matched_pages_dir = ''matched_pages''"

definition pdf_name :: "string \<Rightarrow> string \<Rightarrow> string" where
  "pdf_name route_id location_number = route_id @ '' - '' @ location_number @ ''.pdf''"

definition pdf_name_numbered :: "string \<Rightarrow> string \<Rightarrow> nat \<Rightarrow> string" where
  "pdf_name_numbered route_id location_number count =
     route_id @ '' - '' @ location_number @ '' ('' @ str_nat count @ '').pdf''"

definition numbered_path :: "string \<Rightarrow> string \<Rightarrow> nat \<Rightarrow> string" where
  "numbered_path route_id location_number count =
     os_path_join matched_pages_dir (pdf_name_numbered route_id location_number count)"

text \<open>
  The loop \<^verbatim>\<open>while os.path.exists(new_pdf_path)\<close> tries the numbered names in turn.
  \<open>files\<close> lists the paths that exist. The loop ends because the numbered paths are
  pairwise different and only finitely many of them are in \<open>files\<close>; the lemmas up to
  \<open>free_measure_decreases\<close> are its termination argument.
\<close>

lemma code_digit_char: "d < 10 \<Longrightarrow> code (digit_char d) - 48 = d"
  by (simp add: code_def digit_char_def)

lemma int_of_digits_snoc: "int_of_digits (ds @ [c]) = 10 * int_of_digits ds + (code c - 48)"
  by (simp add: int_of_digits_def)

lemma int_of_digits_str_nat: "int_of_digits (str_nat n) = n"
proof (induction n rule: str_nat.induct)
  case (1 n)
  show ?case
  proof (cases "n < 10")
    case True
    then show ?thesis
      by (subst str_nat.simps) (simp add: int_of_digits_def code_digit_char)
  next
    case False
    then have "int_of_digits (str_nat (n div 10)) = n div 10" by (rule "1.IH")
    with False show ?thesis
      by (subst str_nat.simps) (simp add: int_of_digits_snoc code_digit_char)
  qed
qed

lemma str_nat_inj: "str_nat m = str_nat n \<Longrightarrow> m = n"
  by (metis int_of_digits_str_nat)

lemma os_path_join_inj:
  "take 1 x = take 1 y \<Longrightarrow> os_path_join a x = os_path_join a y \<Longrightarrow> x = y"
  by (auto simp: os_path_join_def split: if_splits)

lemma numbered_path_inj:
  assumes eq: "numbered_path r l m = numbered_path r l n"
  shows "m = n"
proof -
  have "take 1 (pdf_name_numbered r l m) = take 1 (pdf_name_numbered r l n)"
    by (cases r) (simp_all add: pdf_name_numbered_def)
  then have "pdf_name_numbered r l m = pdf_name_numbered r l n"
    using eq unfolding numbered_path_def by (rule os_path_join_inj)
  then have "str_nat m = str_nat n" by (simp add: pdf_name_numbered_def)
  then show ?thesis by (rule str_nat_inj)
qed

definition taken_from :: "string list \<Rightarrow> string \<Rightarrow> string \<Rightarrow> nat \<Rightarrow> nat set" where
  "taken_from files r l count = {n. count \<le> n \<and> numbered_path r l n \<in> set files}"

definition free_measure :: "string list \<times> string \<times> string \<times> string \<times> nat \<Rightarrow> nat" where
  "free_measure a =
     (case a of (files, r, l, p, count) \<Rightarrow>
        card (taken_from files r l count) + (if p \<in> set files then 1 else 0))"

lemma finite_taken_from: "finite (taken_from files r l count)"
proof -
  have "inj (numbered_path r l)" by (rule injI) (rule numbered_path_inj)
  then have "finite (numbered_path r l -` set files)" by (simp add: finite_vimageI)
  moreover have "taken_from files r l count \<subseteq> numbered_path r l -` set files"
    by (auto simp: taken_from_def)
  ultimately show ?thesis by (rule rev_finite_subset)
qed

lemma taken_from_Suc_in:
  "numbered_path r l count \<in> set files \<Longrightarrow>
   taken_from files r l count = insert count (taken_from files r l (Suc count))"
  by (auto simp: taken_from_def le_Suc_eq)

lemma taken_from_Suc_out:
  "numbered_path r l count \<notin> set files \<Longrightarrow>
   taken_from files r l count = taken_from files r l (Suc count)"
  by (auto simp: taken_from_def) (metis Suc_leI le_neq_implies_less)

lemma free_measure_decreases:
  assumes "p \<in> set files"
  shows "free_measure (files, r, l, numbered_path r l count, Suc count)
         < free_measure (files, r, l, p, count)"
proof (cases "numbered_path r l count \<in> set files")
  case True
  have "count \<notin> taken_from files r l (Suc count)" by (simp add: taken_from_def)
  then have "card (taken_from files r l count) = Suc (card (taken_from files r l (Suc count)))"
    using True finite_taken_from by (simp add: taken_from_Suc_in)
  with True assms show ?thesis by (simp add: free_measure_def)
next
  case False
  with assms show ?thesis by (simp add: free_measure_def taken_from_Suc_out)
qed

function free_path :: "string list \<Rightarrow> string \<Rightarrow> string \<Rightarrow> string \<Rightarrow> nat \<Rightarrow> string" where
  "free_path files route_id location_number new_pdf_path count =
     (if new_pdf_path \<in> set files
      then free_path files route_id location_number
             (numbered_path route_id location_number count) (Suc count)
      else new_pdf_path)"
  by pat_completeness auto
termination
  by (relation "measure free_measure") (simp_all add: free_measure_decreases)

declare free_path.simps [simp del]

text \<open>
  \<open>extract_and_save_page\<close>: reading the page of the source PDF or opening the new file
  may raise; the function catches the exception and writes nothing. Otherwise the new
  path is added to the paths that exist.
\<close>

record pdf_store =
  page_readable :: "string \<Rightarrow> nat \<Rightarrow> bool"
  writable :: "string \<Rightarrow> bool"

definition new_pdf_path :: "string list \<Rightarrow> string \<Rightarrow> string \<Rightarrow> string" where
  "new_pdf_path files route_id location_number =
     free_path files route_id location_number
       (os_path_join matched_pages_dir (pdf_name route_id location_number)) 1"

definition extract_and_save_page :: "pdf_store \<Rightarrow> string list \<Rightarrow> string \<Rightarrow> nat \<Rightarrow> string \<Rightarrow> string \<Rightarrow> string list" where
  "extract_and_save_page st files pdf_path page_number route_id location_number =
     (if page_readable st pdf_path page_number
         \<and> writable st (new_pdf_path files route_id location_number)
      then files @ [new_pdf_path files route_id location_number]
      else files)"

text \<open>
  \<open>search_and_save\<close>: for every query, the rows of the table whose RouteID equals
  \<^verbatim>\<open>route_id.upper()\<close> and whose LocationNumber equals the query's are exported in the
  order of the table (\<open>save_rows\<close> is the loop over \<^verbatim>\<open>matching_records.iterrows()\<close>).
  No RouteID of the table equals a capital that is no text of the model. The
  PageNumber of a row of the table built by \<open>process_pdfs\<close> is an \<open>int\<close>, so the
  \<open>isinstance\<close> test of the loop holds.
\<close>

fun save_rows :: "pdf_store \<Rightarrow> string list \<Rightarrow> string \<Rightarrow> string \<Rightarrow> string \<Rightarrow> result list \<Rightarrow> string list" where
  "save_rows st files pdf_directory route_id location_number [] = files"
| "save_rows st files pdf_directory route_id location_number (row # rows) =
     save_rows st
       (extract_and_save_page st files (os_path_join pdf_directory (PDF row)) (PageNumber row)
          route_id location_number)
       pdf_directory route_id location_number rows"

fun search_and_save :: "pdf_store \<Rightarrow> string list \<Rightarrow> result list \<Rightarrow> (string \<times> string) list \<Rightarrow> string \<Rightarrow> string list" where
  "search_and_save st files df [] pdf_directory = files"
| "search_and_save st files df ((route_id, location_number) # queries) pdf_directory =
     search_and_save st
       (save_rows st files pdf_directory route_id location_number
          (filter (\<lambda>row. Some (RouteID row) = upper route_id
                         \<and> LocationNumber row = location_number) df))
       df queries pdf_directory"

section \<open>Reading the queries\<close>

text \<open>
  A row of \<open>csv.DictReader\<close> maps the column names of the header to the fields of the
  line; a column for which the line has no field is mapped to \<open>None\<close> (\<open>Missing\<close>
  below). \<^verbatim>\<open>row.get('RouteID', '')\<close> gives the empty string only when the file has no
  such column; \<open>.strip()\<close> on \<open>None\<close> raises \<open>AttributeError\<close>, which the \<open>try\<close> around
  the whole loop catches: the queries collected so far are returned.
\<close>

datatype cell = Missing | Field string

type_synonym csv_row = "string \<rightharpoonup> cell"

definition row_get :: "csv_row \<Rightarrow> string \<Rightarrow> cell" where
  "row_get row k = (case row k of None \<Rightarrow> Field [] | Some v \<Rightarrow> v)"

text \<open>\<^verbatim>\<open>re.fullmatch(r'\d{8}', route_id)\<close> and \<^verbatim>\<open>re.fullmatch(r'\d{4}', location_number)\<close>\<close>

definition fullmatch_digits :: "nat \<Rightarrow> string \<Rightarrow> bool" where
  "fullmatch_digits n s = (length s = n \<and> all_digits s)"

definition valid_query :: "string \<Rightarrow> string \<Rightarrow> bool" where
  "valid_query route_id location_number =
     (route_id \<noteq> [] \<and> location_number \<noteq> []
      \<and> fullmatch_digits 8 route_id \<and> fullmatch_digits 4 location_number)"

fun read_rows :: "csv_row list \<Rightarrow> (string \<times> string) list" where
  "read_rows [] = []"
| "read_rows (row # rows) =
     (case (row_get row ''RouteID'', row_get row ''LocationNumber'') of
        (Field a, Field b) \<Rightarrow>
          (if valid_query (strip a) (strip b) then [(strip a, strip b)] else [])
          @ read_rows rows
      | _ \<Rightarrow> [])"

datatype csv_source = Unreadable | Rows "csv_row list"

definition read_queries_from_csv :: "csv_source \<Rightarrow> (string \<times> string) list" where
  "read_queries_from_csv src = (case src of Unreadable \<Rightarrow> [] | Rows rows \<Rightarrow> read_rows rows)"

section \<open>The main program\<close>

text \<open>
  \<open>main\<close> returns the exit status of the process, the steps it ran and the paths that
  exist at the end. \<^verbatim>\<open>sys.exit(1)\<close> and an exception nobody catches both end the process
  with status 1.
\<close>

datatype step = ProcessPdfs | SaveResults | ReadQueries | SearchAndSave

record 'img world =
  pdf_directory :: string
  pdf_directory_exists :: bool
  csv_path_exists :: bool
  cpus :: nat
  walked_pdfs :: "string list"
  ocr :: "'img engine"
  queries_csv :: csv_source
  store :: pdf_store
  existing :: "string list"

definition main :: "'img world \<Rightarrow> nat \<times> step list \<times> string list" where
  "main w =
     (if \<not> pdf_directory_exists w then (1, [], existing w)
      else if \<not> csv_path_exists w then (1, [], existing w)
      else (case process_pdfs (ocr w) (cpus w) (walked_pdfs w) of
              Inl e \<Rightarrow> (1, [ProcessPdfs], existing w)
            | Inr route_id_df \<Rightarrow>
                (let queries = read_queries_from_csv (queries_csv w)
                 in if queries = [] then (1, [ProcessPdfs, SaveResults, ReadQueries], existing w)
                    else (0, [ProcessPdfs, SaveResults, ReadQueries, SearchAndSave],
                          search_and_save (store w) (existing w) route_id_df queries
                            (pdf_directory w)))))"

section \<open>Notions used in the statements\<close>

text \<open>
  The cleaning step as the specification words it, for comparison with
  \<open>clean_store_name\<close>: cut at the first occurrence of \<open>Phone\<close> in any letter case.
\<close>

fun truncate_at_phone_ci :: "string \<Rightarrow> string" where
  "truncate_at_phone_ci [] = []"
| "truncate_at_phone_ci (c # cs) =
     (if ci_prefix ''Phone'' (c # cs) then [] else c # truncate_at_phone_ci cs)"

definition claimed_clean_store_name :: "string \<Rightarrow> string" where
  "claimed_clean_store_name s = strip (truncate_at_phone_ci s)"

text \<open>\<open>phone_at s i\<close>: a match of \<^verbatim>\<open>\sPhone\<close> starts at index \<open>i\<close> of \<open>s\<close>.\<close>

definition phone_at :: "string \<Rightarrow> nat \<Rightarrow> bool" where
  "phone_at s i = (i < length s \<and> is_space (s ! i) \<and> take 5 (drop (Suc i) s) = ''Phone'')"

text \<open>The two groups of a header match: a four-digit location number and a name.\<close>

definition header_ok :: "header_match \<Rightarrow> bool" where
  "header_ok m = (length (fst m) = 4 \<and> all_digits (fst m) \<and> snd m \<noteq> [])"

text \<open>
  The field-combination rule on a page text: every route match of the text, in order,
  with the location number and the cleaned store name of the first X-Dock WH match
  when the text has one, otherwise with those of its first To match; no record when it
  has neither.
\<close>

definition priority_records :: "string \<Rightarrow> (string \<times> string \<times> string) list" where
  "priority_records page_text =
     (case findall xdock_wh_pattern page_text of
        (location_number, store_name) # _ \<Rightarrow>
          map (\<lambda>route_id. (route_id, location_number, clean_store_name store_name))
            (findall route_id_pattern page_text)
      | [] \<Rightarrow>
          (case findall to_pattern page_text of
             (location_number, store_name) # _ \<Rightarrow>
               map (\<lambda>route_id. (route_id, location_number, clean_store_name store_name))
                 (findall route_id_pattern page_text)
           | [] \<Rightarrow> []))"

text \<open>The format of the two identifiers of a result.\<close>

definition formats_ok :: "result \<Rightarrow> bool" where
  "formats_ok r = (fullmatch_digits 8 (RouteID r) \<and> fullmatch_digits 4 (LocationNumber r))"

text \<open>
  An engine for the examples: an image is the pair of the text read on it as it stands
  and the text read on it upside down. Orientation detection fails on the first
  \<open>k\<close> attempts and then reports no rotation; \<open>docs\<close> gives the pages of a PDF file.
\<close>

definition sample_engine :: "nat \<Rightarrow> (string \<Rightarrow> exn + (string \<times> string) list) \<Rightarrow> (string \<times> string) engine" where
  "sample_engine k docs =
     \<lparr>image_to_osd = (\<lambda>img attempt. if attempt < k then Inl TesseractError else Inr ''Rotate: 0''),
      image_to_string = (\<lambda>img. Inr (fst img)),
      rotate = (\<lambda>img angle. if angle = 180 then (snd img, fst img) else img),
      preprocess_image = (\<lambda>img. img),
      convert_from_path = docs\<rparr>"

text \<open>
  Two files with the same base name: the page of the first reads two mentions of one
  route over a To header, the page of the second reads a route and an X-Dock WH header
  only when turned upside down.
\<close>

definition sample_docs :: "string \<Rightarrow> exn + (string \<times> string) list" where
  "sample_docs p =
     (if p = ''a/x.pdf'' then Inr [(''Route:12345678 Route:12345678 To 1 1234-A'', [])]
      else if p = ''b/x.pdf'' then Inr [([], ''Route:12345678 X-Dock WH:1234-B'')]
      else Inl PDFError)"

text \<open>
  The events of a page by kind, and the events of three failed orientation attempts:
  a call, then a sleep of one second, three times.
\<close>

fun is_osd_call :: "'img event \<Rightarrow> bool" where
  "is_osd_call (OsdCall _) = True"
| "is_osd_call _ = False"

definition osd_schedule :: "'img event list" where
  "osd_schedule = [OsdCall 0, Sleep 1, OsdCall 1, Sleep 1, OsdCall 2, Sleep 1]"

fun is_ocr_call :: "'img event \<Rightarrow> bool" where
  "is_ocr_call (OcrCall _) = True"
| "is_ocr_call _ = False"

text \<open>
  Queries: the text of a field, a row with both fields, the pair of its trimmed fields
  and the format check on that pair.
\<close>

fun field_text :: "cell \<Rightarrow> string" where
  "field_text (Field s) = s"
| "field_text Missing = []"

definition fields_present :: "csv_row \<Rightarrow> bool" where
  "fields_present row =
     (row_get row ''RouteID'' \<noteq> Missing \<and> row_get row ''LocationNumber'' \<noteq> Missing)"

definition stripped_query :: "csv_row \<Rightarrow> string \<times> string" where
  "stripped_query row =
     (strip (field_text (row_get row ''RouteID'')),
      strip (field_text (row_get row ''LocationNumber'')))"

definition well_formed :: "csv_row \<Rightarrow> bool" where
  "well_formed row =
     (fullmatch_digits 8 (fst (stripped_query row)) \<and> fullmatch_digits 4 (snd (stripped_query row)))"

text \<open>Rows for the examples: a full row, and a line that ends after its first field.\<close>

definition query_row :: "string \<Rightarrow> string \<Rightarrow> csv_row" where
  "query_row a b = [''RouteID'' \<mapsto> Field a, ''LocationNumber'' \<mapsto> Field b]"

definition short_row :: "string \<Rightarrow> csv_row" where
  "short_row a = [''RouteID'' \<mapsto> Field a, ''LocationNumber'' \<mapsto> Missing]"

text \<open>A store in which every page can be read and every path written, and a table row.\<close>

definition open_store :: pdf_store where
  "open_store = \<lparr>page_readable = (\<lambda>p n. True), writable = (\<lambda>p. True)\<rparr>"


text \<open>The two observations of a run of \<open>main\<close>, and a world for the examples.\<close>

definition exit_status :: "nat \<times> step list \<times> string list \<Rightarrow> nat" where
  "exit_status out = fst out"

definition steps_run :: "nat \<times> step list \<times> string list \<Rightarrow> step list" where
  "steps_run out = fst (snd out)"

definition sample_world :: "bool \<Rightarrow> bool \<Rightarrow> csv_source \<Rightarrow> (string \<times> string) world" where
  "sample_world dir_there csv_there src =
     \<lparr>pdf_directory = ''pdfs'', pdf_directory_exists = dir_there, csv_path_exists = csv_there,
      cpus = 2, walked_pdfs = [''b/x.pdf''], ocr = sample_engine 3 sample_docs,
      queries_csv = src, store = open_store, existing = []\<rparr>"

section \<open>Evaluating the definitions on concrete texts\<close>

lemmas class_eval =
  code_def space_code_def digit_code_def upper_code_def lower_code_def word_code_def
  is_space_def is_digit_def is_upper_def is_lower_def is_word_def fold_code_def ci_eq_def
  all_digits_def to_class_def xdock_class_def

lemmas pattern_eval =
  class_eval findall_def route_id_pattern_def to_pattern_def xdock_wh_pattern_def location_store_at_def
  word_boundary_def word_opt_def first_char_def Let_def

lemmas page_eval =
  pattern_eval clean_store_name_def strip_def location_def pattern_pass_def

section \<open>What the patterns capture\<close>

lemma route_id_pattern_digits:
  "route_id_pattern prev s = Some (d, n) \<Longrightarrow> length d = 8 \<and> all_digits d"
  by (auto simp: route_id_pattern_def Let_def split: if_splits)

lemma location_store_at_groups:
  "location_store_at cls s = Some ((loc, name), rest) \<Longrightarrow>
   length loc = 4 \<and> all_digits loc \<and> name \<noteq> []"
  by (auto simp: location_store_at_def Let_def split: if_splits)

lemma to_pattern_groups:
  "to_pattern prev s = Some ((loc, name), n) \<Longrightarrow> length loc = 4 \<and> all_digits loc \<and> name \<noteq> []"
  by (auto simp: to_pattern_def Let_def split: if_splits option.splits
           dest: location_store_at_groups)

lemma xdock_wh_pattern_groups:
  "xdock_wh_pattern prev s = Some ((loc, name), n) \<Longrightarrow> length loc = 4 \<and> all_digits loc \<and> name \<noteq> []"
  by (auto simp: xdock_wh_pattern_def Let_def split: if_splits option.splits
           dest: location_store_at_groups)

lemma findall_from_all:
  "(\<forall>p s g n. m p s = Some (g, n) \<longrightarrow> Q g) \<Longrightarrow> g \<in> set (findall_from m prev s) \<Longrightarrow> Q g"
proof (induction m prev s rule: findall_from.induct)
  case (1 m prev)
  then show ?case by simp
next
  case (2 m prev c cs)
  show ?case
  proof (cases "m prev (c # cs)")
    case None
    with 2 show ?thesis by simp
  next
    case (Some a)
    obtain g' n where a: "a = (g', n)" by (cases a)
    have "Q g'" using Some a "2.prems"(1) by blast
    with 2 Some a show ?thesis by auto
  qed
qed

lemma findall_route_digits:
  "d \<in> set (findall route_id_pattern page_text) \<Longrightarrow> length d = 8 \<and> all_digits d"
  unfolding findall_def
  by (rule findall_from_all [where Q = "\<lambda>d. length d = 8 \<and> all_digits d"])
     (auto dest: route_id_pattern_digits)

lemma findall_to_groups:
  "m \<in> set (findall to_pattern page_text) \<Longrightarrow> header_ok m"
  unfolding findall_def
  by (rule findall_from_all [where Q = header_ok])
     (auto simp: header_ok_def dest: to_pattern_groups)

lemma findall_xdock_groups:
  "m \<in> set (findall xdock_wh_pattern page_text) \<Longrightarrow> header_ok m"
  unfolding findall_def
  by (rule findall_from_all [where Q = header_ok])
     (auto simp: header_ok_def dest: xdock_wh_pattern_groups)

lemma pair_routes_Some:
  "location tm xm = Some (loc, name) \<Longrightarrow> loc \<noteq> [] \<Longrightarrow> name \<noteq> [] \<Longrightarrow>
   pair_routes rm tm xm = map (\<lambda>route_id. (route_id, loc, clean_store_name name)) rm"
  by (induction rm) simp_all

lemma pair_routes_None:
  "location tm xm = None \<Longrightarrow> pair_routes rm tm xm = []"
  by (induction rm) simp_all

section \<open>Field combination\<close>

lemma pair_routes_priority:
  "pair_routes (findall route_id_pattern page_text) (findall to_pattern page_text)
     (findall xdock_wh_pattern page_text) =
     (case findall xdock_wh_pattern page_text of
        (location_number, store_name) # _ \<Rightarrow>
          map (\<lambda>route_id. (route_id, location_number, clean_store_name store_name))
            (findall route_id_pattern page_text)
      | [] \<Rightarrow>
          (case findall to_pattern page_text of
             (location_number, store_name) # _ \<Rightarrow>
               map (\<lambda>route_id. (route_id, location_number, clean_store_name store_name))
                 (findall route_id_pattern page_text)
           | [] \<Rightarrow> []))"
proof (cases "findall xdock_wh_pattern page_text")
  case xnil: Nil
  show ?thesis
  proof (cases "findall to_pattern page_text")
    case Nil
    with xnil show ?thesis by (simp add: pair_routes_None location_def)
  next
    case (Cons t ts)
    obtain loc name where t: "t = (loc, name)" by (cases t)
    have "header_ok t" using Cons by (intro findall_to_groups [of t page_text]) simp
    then have "loc \<noteq> []" "name \<noteq> []" using t by (auto simp: header_ok_def)
    moreover have "location (findall to_pattern page_text) (findall xdock_wh_pattern page_text) = Some (loc, name)"
      using xnil Cons t by (simp add: location_def)
    ultimately show ?thesis using xnil Cons t by (simp add: pair_routes_Some)
  qed
next
  case (Cons x xs)
  obtain loc name where x: "x = (loc, name)" by (cases x)
  have "header_ok x" using Cons by (intro findall_xdock_groups [of x page_text]) simp
  then have "loc \<noteq> []" "name \<noteq> []" using x by (auto simp: header_ok_def)
  moreover have "location (findall to_pattern page_text) (findall xdock_wh_pattern page_text) = Some (loc, name)"
    using Cons x by (simp add: location_def)
  ultimately show ?thesis using Cons x by (simp add: pair_routes_Some)
qed

lemma extract_info_is_pairing:
  "fst (extract_info_from_page eng page_image) = []
   \<or> (\<exists>img t. image_to_string eng img = Inr t
        \<and> fst (extract_info_from_page eng page_image)
            = pair_routes (findall route_id_pattern t) (findall to_pattern t) (findall xdock_wh_pattern t))"
  by (auto simp: extract_info_from_page_def ocr_passes_def pattern_pass_def Let_def
           split: prod.splits sum.splits if_splits)

section \<open>Store-name cleaning: what the code cuts\<close>

lemma split_phone_head_first:
  "phone_at s i \<Longrightarrow> (\<forall>j<i. \<not> phone_at s j) \<Longrightarrow> split_phone_head s = take i s"
proof (induction s arbitrary: i)
  case Nil
  then show ?case by (simp add: phone_at_def)
next
  case (Cons c cs)
  show ?case
  proof (cases i)
    case 0
    with Cons.prems(1) show ?thesis by (simp add: phone_at_def)
  next
    case (Suc k)
    have no0: "\<not> phone_at (c # cs) 0" using Cons.prems(2) Suc by simp
    have "phone_at cs k" using Cons.prems(1) Suc by (simp add: phone_at_def)
    moreover have "\<forall>j<k. \<not> phone_at cs j"
    proof (intro allI impI)
      fix j assume "j < k"
      then have "\<not> phone_at (c # cs) (Suc j)" using Cons.prems(2) Suc by simp
      then show "\<not> phone_at cs j" by (simp add: phone_at_def)
    qed
    ultimately have "split_phone_head cs = take k cs" by (rule Cons.IH)
    with no0 Suc show ?thesis by (simp add: phone_at_def)
  qed
qed

lemma split_phone_head_none:
  "(\<forall>j. \<not> phone_at s j) \<Longrightarrow> split_phone_head s = s"
proof (induction s)
  case Nil
  then show ?case by simp
next
  case (Cons c cs)
  have no0: "\<not> phone_at (c # cs) 0" using Cons.prems by simp
  have "\<forall>j. \<not> phone_at cs j"
  proof
    fix j
    have "\<not> phone_at (c # cs) (Suc j)" using Cons.prems by simp
    then show "\<not> phone_at cs j" by (simp add: phone_at_def)
  qed
  then have "split_phone_head cs = cs" by (rule Cons.IH)
  with no0 show ?case by (simp add: phone_at_def)
qed

lemma split_phone_head_Acme:
  "is_space w \<Longrightarrow> split_phone_head (''Acme Store'' @ w # ''Phone'' @ rest) = ''Acme Store''"
  by (simp add: is_space_def space_code_def code_def)

lemma strip_Acme: "strip ''Acme Store'' = ''Acme Store''"
  by (simp add: strip_def is_space_def space_code_def code_def)

lemma strip_trimmed:
  "strip t = [] \<or> (\<not> is_space (hd (strip t)) \<and> \<not> is_space (last (strip t)))"
proof (cases "strip t = []")
  case True
  then show ?thesis by simp
next
  case False
  let ?u = "dropWhile is_space t"
  let ?v = "dropWhile is_space (rev ?u)"
  have v: "?v \<noteq> []" using False by (simp add: strip_def)
  then have "\<not> is_space (hd ?v)" by (rule hd_dropWhile)
  then have l: "\<not> is_space (last (strip t))" using v by (simp add: strip_def last_rev)
  have u: "?u \<noteq> []"
  proof
    assume "?u = []"
    then have "?v = []" by (simp only: rev.simps dropWhile.simps)
    with v show False by simp
  qed
  then have hu: "\<not> is_space (hd ?u)" by (rule hd_dropWhile)
  have "hd (rev ?v) = hd ?u"
  proof -
    obtain a where a: "rev ?u = a @ ?v" by (metis takeWhile_dropWhile_id)
    then have "?u = rev ?v @ rev a" by (metis rev_append rev_rev_ident)
    then have "hd ?u = hd (rev ?v @ rev a)" by simp
    also have "\<dots> = hd (rev ?v)" using v by simp
    finally show ?thesis by simp
  qed
  with hu have "\<not> is_space (hd (strip t))" by (simp add: strip_def)
  with l show ?thesis by simp
qed

lemma strip_surrounding:
  "\<exists>a b. t = a @ strip t @ b \<and> list_all is_space a \<and> list_all is_space b"
proof -
  let ?u = "dropWhile is_space t"
  let ?b = "takeWhile is_space (rev ?u)"
  have "rev ?u = ?b @ dropWhile is_space (rev ?u)" by simp
  then have "?u = strip t @ rev ?b" unfolding strip_def by (metis rev_append rev_rev_ident)
  then have "t = takeWhile is_space t @ strip t @ rev ?b"
    by (metis takeWhile_dropWhile_id)
  moreover have "list_all is_space (takeWhile is_space t)"
    by (simp add: list_all_iff) (meson set_takeWhileD)
  moreover have "list_all is_space (rev ?b)"
    by (simp add: list_all_iff) (meson set_takeWhileD)
  ultimately show ?thesis by blast
qed

lemma all_less_list_all: "(\<forall>j<n. P j) = list_all P [0..<n]"
  by (auto simp: list_all_iff)

lemma phone_at_short: "length s < 6 \<Longrightarrow> \<not> phone_at s j"
proof
  assume len: "length s < 6" and "phone_at s j"
  then have "length (take 5 (drop (Suc j) s)) = 5" by (simp add: phone_at_def)
  with len show False by simp
qed

text \<open>
  C3, as the code has it. The cleaning step cuts a store name at the leftmost place
  where a whitespace character is followed by \<open>Phone\<close> in exactly this spelling, and
  trims the whitespace around what is left; a name without such a place is only
  trimmed. So \<open>Acme Store\<close>, a whitespace character, \<open>Phone\<close> and any further text
  clean to \<open>Acme Store\<close>.
\<close>

theorem clean_store_name_cut:
  "(phone_at s i \<and> (\<forall>j<i. \<not> phone_at s j) \<longrightarrow> clean_store_name s = strip (take i s))
   \<and> ((\<forall>j. \<not> phone_at s j) \<longrightarrow> clean_store_name s = strip s)
   \<and> (is_space w \<longrightarrow> clean_store_name (''Acme Store'' @ w # ''Phone'' @ rest) = ''Acme Store'')
   \<and> (clean_store_name s = []
       \<or> (\<not> is_space (hd (clean_store_name s)) \<and> \<not> is_space (last (clean_store_name s))))"
proof (intro conjI impI)
  assume "phone_at s i \<and> (\<forall>j<i. \<not> phone_at s j)"
  then have "split_phone_head s = take i s" by (simp add: split_phone_head_first)
  then show "clean_store_name s = strip (take i s)" by (simp add: clean_store_name_def)
next
  assume "\<forall>j. \<not> phone_at s j"
  then have "split_phone_head s = s" by (rule split_phone_head_none)
  then show "clean_store_name s = strip s" by (simp add: clean_store_name_def)
next
  assume "is_space w"
  then show "clean_store_name (''Acme Store'' @ w # ''Phone'' @ rest) = ''Acme Store''"
    by (simp only: clean_store_name_def split_phone_head_Acme strip_Acme)
next
  show "clean_store_name s = []
       \<or> (\<not> is_space (hd (clean_store_name s)) \<and> \<not> is_space (last (clean_store_name s)))"
    unfolding clean_store_name_def by (rule strip_trimmed)
qed

theorem clean_store_name_cut_witness:
  "phone_at ''Acme Store Phone 555'' 10
   \<and> list_all (\<lambda>j. \<not> phone_at ''Acme Store Phone 555'' j) [0..<10]
   \<and> clean_store_name ''Acme Store Phone 555'' = ''Acme Store''
   \<and> clean_store_name ''Acme'' = ''Acme''
   \<and> is_space CHR '' ''
   \<and> clean_store_name (''Acme Store'' @ CHR '' '' # ''Phone'' @ '': 555-1234'') = ''Acme Store''"
proof -
  have a: "phone_at ''Acme Store Phone 555'' 10"
    by (simp add: phone_at_def class_eval)
  have b: "list_all (\<lambda>j. \<not> phone_at ''Acme Store Phone 555'' j) [0..<10]"
    by (simp add: phone_at_def class_eval upt_rec)
  have c: "\<forall>j. \<not> phone_at ''Acme'' j" by (simp add: phone_at_short)
  have d: "is_space CHR '' ''" by (simp add: class_eval)
  have e: "strip (take 10 ''Acme Store Phone 555'') = ''Acme Store''"
    by (simp add: strip_def class_eval)
  have f: "strip ''Acme'' = ''Acme''" by (simp add: strip_def class_eval)
  from a b have "clean_store_name ''Acme Store Phone 555'' = strip (take 10 ''Acme Store Phone 555'')"
    using clean_store_name_cut [of "''Acme Store Phone 555''" 10] by (simp add: all_less_list_all)
  moreover from c have "clean_store_name ''Acme'' = strip ''Acme''"
    using clean_store_name_cut [of "''Acme''"] by simp
  moreover from d have "clean_store_name (''Acme Store'' @ CHR '' '' # ''Phone'' @ '': 555-1234'') = ''Acme Store''"
    using clean_store_name_cut [of _ _ "CHR '' ''" "'': 555-1234''"] by simp
  ultimately show ?thesis using a b d e f by simp
qed

text \<open>
  C3, as the claim words it, fails: a captured store name with \<open>phone\<close> in lower case is
  not cut, while a case-insensitive cut at \<open>Phone\<close> would leave \<open>Acme Store\<close>.
\<close>

theorem clean_store_name_counterexample:
  "findall xdock_wh_pattern ''X-Dock WH: 1234-Acme Store phone 555'' = [(''1234'', ''Acme Store phone 555'')]
   \<and> clean_store_name ''Acme Store phone 555'' = ''Acme Store phone 555''
   \<and> claimed_clean_store_name ''Acme Store phone 555'' = ''Acme Store''"
  by (simp add: page_eval claimed_clean_store_name_def)

section \<open>The format of the identifiers\<close>

lemma upper_char_digit: "is_digit c \<Longrightarrow> upper_char c = Some [c]"
  by (simp add: upper_char_def Let_def is_digit_def digit_code_def lower_code_def)

lemma upper_digits: "all_digits s \<Longrightarrow> upper s = Some s"
  by (induction s) (simp_all add: all_digits_def upper_char_digit upper.simps)

lemma location_member:
  "location tm xm = Some m \<Longrightarrow> m \<in> set tm \<or> m \<in> set xm"
  by (auto simp: location_def split: list.splits)

lemma pair_routes_member:
  "(r, l, n) \<in> set (pair_routes rm tm xm) \<Longrightarrow>
   r \<in> set rm \<and> (\<exists>name. location tm xm = Some (l, name))"
proof (induction rm)
  case Nil
  then show ?case by simp
next
  case (Cons a rm)
  show ?case
  proof (cases "location tm xm")
    case None
    with Cons show ?thesis by simp
  next
    case (Some m)
    with Cons show ?thesis by (cases m) (auto split: if_splits)
  qed
qed

lemma pair_routes_formats:
  assumes "(r, l, n) \<in> set (pair_routes (findall route_id_pattern t) (findall to_pattern t) (findall xdock_wh_pattern t))"
  shows "fullmatch_digits 8 r \<and> fullmatch_digits 4 l"
proof -
  from assms have r: "r \<in> set (findall route_id_pattern t)"
    and "\<exists>name. location (findall to_pattern t) (findall xdock_wh_pattern t) = Some (l, name)"
    by (auto dest: pair_routes_member)
  then obtain name where "location (findall to_pattern t) (findall xdock_wh_pattern t) = Some (l, name)"
    by blast
  then have "(l, name) \<in> set (findall to_pattern t) \<or> (l, name) \<in> set (findall xdock_wh_pattern t)"
    by (rule location_member)
  then have "header_ok (l, name)"
    by (auto dest: findall_to_groups findall_xdock_groups)
  with r show ?thesis
    by (auto simp: fullmatch_digits_def header_ok_def dest: findall_route_digits)
qed

lemma extract_info_formats:
  assumes "(r, l, n) \<in> set (fst (extract_info_from_page eng page_image))"
  shows "fullmatch_digits 8 r \<and> fullmatch_digits 4 l"
proof -
  from assms have ne: "fst (extract_info_from_page eng page_image) \<noteq> []" by auto
  with extract_info_is_pairing [of eng page_image]
  obtain t where "fst (extract_info_from_page eng page_image)
      = pair_routes (findall route_id_pattern t) (findall to_pattern t) (findall xdock_wh_pattern t)"
    by blast
  with assms show ?thesis by (simp add: pair_routes_formats)
qed

lemma make_result_formats:
  "m \<in> set (fst (extract_info_from_page eng page_image)) \<Longrightarrow>
   formats_ok (make_result pdf_path page_number m)"
proof -
  assume m: "m \<in> set (fst (extract_info_from_page eng page_image))"
  obtain r l n where mm: "m = (r, l, n)" by (cases m)
  with m have "fullmatch_digits 8 r \<and> fullmatch_digits 4 l" by (simp add: extract_info_formats)
  then show ?thesis
    by (simp add: mm make_result_def formats_ok_def fullmatch_digits_def upper_digits)
qed

lemma extract_info_upper:
  assumes "(r, l, n) \<in> set (fst (extract_info_from_page eng page_image))"
  shows "upper r = Some r"
proof -
  from assms have "fullmatch_digits 8 r \<and> fullmatch_digits 4 l" by (rule extract_info_formats)
  then have "all_digits r" by (simp add: fullmatch_digits_def)
  then show ?thesis by (rule upper_digits)
qed

lemma page_loop_formats:
  "r \<in> set (page_loop eng pdf_path page_number pages) \<Longrightarrow> formats_ok r"
  by (induction pages arbitrary: page_number) (auto dest: make_result_formats)

lemma extract_route_and_store_ids_formats:
  "r \<in> set (extract_route_and_store_ids eng pdf_path) \<Longrightarrow> formats_ok r"
  by (auto simp: extract_route_and_store_ids_def split: sum.splits dest: page_loop_formats)

lemma merge_results_formats:
  "r \<in> set (merge_results eng pdf_files) \<Longrightarrow> formats_ok r"
  by (auto simp: merge_results_def dest: extract_route_and_store_ids_formats)

lemma drop_duplicates_from_subset:
  "set (drop_duplicates_from seen rs) \<subseteq> set rs"
  by (induction rs arbitrary: seen) auto

lemma drop_duplicates_subset: "set (drop_duplicates rs) \<subseteq> set rs"
  by (simp add: drop_duplicates_def drop_duplicates_from_subset)

lemma process_pdfs_subset:
  "process_pdfs eng n pdf_files = Inr table \<Longrightarrow> set table \<subseteq> set (merge_results eng pdf_files)"
  using drop_duplicates_subset [of "merge_results eng pdf_files"]
  by (auto simp: process_pdfs_def Let_def split: if_splits)

section \<open>The example engine evaluated\<close>

lemma sample_orientation:
  "correct_orientation (sample_engine 0 docs) img = (img, [OsdCall 0])"
  by (simp add: sample_engine_def correct_orientation_def robust_image_to_osd_def
        osd_rotation_def int_of_digits_def numeral_3_eq_3 class_eval)

lemma sample_extract:
  "fst (extract_info_from_page (sample_engine 0 docs) (t, u)) =
     (if findall route_id_pattern t \<noteq> []
      then pair_routes (findall route_id_pattern t) (findall to_pattern t) (findall xdock_wh_pattern t)
      else pair_routes (findall route_id_pattern u) (findall to_pattern u) (findall xdock_wh_pattern u))"
proof -
  have "image_to_string (sample_engine 0 docs) = (\<lambda>img. Inr (fst img))"
    and "rotate (sample_engine 0 docs) (t, u) 180 = (u, t)"
    by (simp_all add: sample_engine_def)
  then show ?thesis
    by (simp add: extract_info_from_page_def sample_orientation ocr_passes_def pattern_pass_def)
qed

lemma text_a:
  "findall route_id_pattern ''Route:12345678 Route:12345678 To 1 1234-A'' = [''12345678'', ''12345678'']"
  "findall to_pattern ''Route:12345678 Route:12345678 To 1 1234-A'' = [(''1234'', ''A'')]"
  "findall xdock_wh_pattern ''Route:12345678 Route:12345678 To 1 1234-A'' = []"
  by (simp_all add: pattern_eval)

lemma text_b:
  "findall route_id_pattern ''Route:12345678 X-Dock WH:1234-B'' = [''12345678'']"
  "findall to_pattern ''Route:12345678 X-Dock WH:1234-B'' = []"
  "findall xdock_wh_pattern ''Route:12345678 X-Dock WH:1234-B'' = [(''1234'', ''B'')]"
  by (simp_all add: pattern_eval)

lemma text_empty: "findall m [] = []"
  by (simp add: findall_def)

lemma clean_A: "clean_store_name ''A'' = ''A''" "clean_store_name ''B'' = ''B''"
  by (simp_all add: clean_store_name_def strip_def class_eval)

lemma sample_page_a:
  "fst (extract_info_from_page (sample_engine 0 docs) (''Route:12345678 Route:12345678 To 1 1234-A'', []))
   = [(''12345678'', ''1234'', ''A''), (''12345678'', ''1234'', ''A'')]"
  by (simp add: sample_extract text_a location_def clean_A)

lemma sample_page_b:
  "fst (extract_info_from_page (sample_engine 0 docs) ([], ''Route:12345678 X-Dock WH:1234-B''))
   = [(''12345678'', ''1234'', ''B'')]"
  by (simp add: sample_extract text_b text_empty location_def clean_A)

lemma upper_route: "upper ''12345678'' = Some ''12345678''"
  by (rule upper_digits) (simp add: all_digits_def class_eval)

lemma sample_results_a:
  "extract_route_and_store_ids (sample_engine 0 sample_docs) ''a/x.pdf'' =
     [\<lparr>RouteID = ''12345678'', LocationNumber = ''1234'', StoreName = ''A'', PDF = ''x.pdf'', PageNumber = 1\<rparr>,
      \<lparr>RouteID = ''12345678'', LocationNumber = ''1234'', StoreName = ''A'', PDF = ''x.pdf'', PageNumber = 1\<rparr>]"
proof -
  have "convert_from_path (sample_engine 0 sample_docs) ''a/x.pdf''
        = Inr [(''Route:12345678 Route:12345678 To 1 1234-A'', [])]"
    by (simp add: sample_engine_def sample_docs_def)
  moreover have "preprocess_image (sample_engine 0 sample_docs) = (\<lambda>img. img)"
    by (simp add: sample_engine_def)
  ultimately show ?thesis
    by (simp add: extract_route_and_store_ids_def sample_page_a make_result_def basename_def upper_route)
qed

lemma sample_results_b:
  "extract_route_and_store_ids (sample_engine 0 sample_docs) ''b/x.pdf'' =
     [\<lparr>RouteID = ''12345678'', LocationNumber = ''1234'', StoreName = ''B'', PDF = ''x.pdf'', PageNumber = 1\<rparr>]"
proof -
  have "convert_from_path (sample_engine 0 sample_docs) ''b/x.pdf''
        = Inr [([], ''Route:12345678 X-Dock WH:1234-B'')]"
    by (simp add: sample_engine_def sample_docs_def)
  moreover have "preprocess_image (sample_engine 0 sample_docs) = (\<lambda>img. img)"
    by (simp add: sample_engine_def)
  ultimately show ?thesis
    by (simp add: extract_route_and_store_ids_def sample_page_b make_result_def basename_def upper_route)
qed

text \<open>
  C9. Every result of the page pipeline, and so every row of the table that
  \<open>process_pdfs\<close> returns, has a RouteID of exactly eight digits and a LocationNumber
  of exactly four digits, whatever the engine reads on the pages.
\<close>

theorem result_formats:
  "(\<forall>r \<in> set (extract_route_and_store_ids eng pdf_path).
      length (RouteID r) = 8 \<and> all_digits (RouteID r)
      \<and> length (LocationNumber r) = 4 \<and> all_digits (LocationNumber r))
   \<and> (process_pdfs eng n pdf_files = Inr table \<longrightarrow>
        (\<forall>r \<in> set table.
           length (RouteID r) = 8 \<and> all_digits (RouteID r)
           \<and> length (LocationNumber r) = 4 \<and> all_digits (LocationNumber r)))"
proof (intro conjI ballI impI)
  fix r
  assume "r \<in> set (extract_route_and_store_ids eng pdf_path)"
  then have "formats_ok r" by (rule extract_route_and_store_ids_formats)
  then show "length (RouteID r) = 8" "all_digits (RouteID r)"
    "length (LocationNumber r) = 4" "all_digits (LocationNumber r)"
    by (simp_all add: formats_ok_def fullmatch_digits_def)
next
  fix r
  assume "process_pdfs eng n pdf_files = Inr table" and "r \<in> set table"
  then have "r \<in> set (merge_results eng pdf_files)" using process_pdfs_subset by blast
  then have "formats_ok r" by (rule merge_results_formats)
  then show "length (RouteID r) = 8" "all_digits (RouteID r)"
    "length (LocationNumber r) = 4" "all_digits (LocationNumber r)"
    by (simp_all add: formats_ok_def fullmatch_digits_def)
qed

theorem result_formats_witness:
  "extract_route_and_store_ids (sample_engine 0 sample_docs) ''b/x.pdf'' =
     [\<lparr>RouteID = ''12345678'', LocationNumber = ''1234'', StoreName = ''B'', PDF = ''x.pdf'', PageNumber = 1\<rparr>]
   \<and> process_pdfs (sample_engine 0 sample_docs) 2 [''b/x.pdf''] =
     Inr [\<lparr>RouteID = ''12345678'', LocationNumber = ''1234'', StoreName = ''B'', PDF = ''x.pdf'', PageNumber = 1\<rparr>]
   \<and> length ''12345678'' = 8 \<and> all_digits ''12345678''
   \<and> length ''1234'' = 4 \<and> all_digits ''1234''"
proof -
  let ?b = "\<lparr>RouteID = ''12345678'', LocationNumber = ''1234'', StoreName = ''B'', PDF = ''x.pdf'', PageNumber = 1\<rparr>"
  let ?eng = "sample_engine 0 sample_docs"
  have p: "process_pdfs ?eng 2 [''b/x.pdf''] = Inr [?b]"
    by (simp add: process_pdfs_def pool_size_def merge_results_def sample_results_b
          drop_duplicates_def)
  have "?b \<in> set (extract_route_and_store_ids ?eng ''b/x.pdf'')"
    by (simp add: sample_results_b)
  with result_formats [of ?eng "''b/x.pdf''" 2 "[''b/x.pdf'']" "[?b]"]
  have "length (RouteID ?b) = 8 \<and> all_digits (RouteID ?b)
      \<and> length (LocationNumber ?b) = 4 \<and> all_digits (LocationNumber ?b)"
    by blast
  with p show ?thesis by (simp add: sample_results_b)
qed

section \<open>Deduplication\<close>

lemma drop_duplicates_from_filter:
  "filter (\<lambda>q. subset_key q = k) (drop_duplicates_from seen rs) =
     (if k \<in> set seen then [] else take 1 (filter (\<lambda>q. subset_key q = k) rs))"
proof (induction rs arbitrary: seen)
  case Nil
  then show ?case by simp
next
  case (Cons r rs)
  show ?case
  proof (cases "subset_key r \<in> set seen")
    case True
    then show ?thesis using Cons.IH [of seen] by auto
  next
    case False
    then show ?thesis using Cons.IH [of "subset_key r # seen"] by auto
  qed
qed

lemma drop_duplicates_filter:
  "filter (\<lambda>q. subset_key q = k) (drop_duplicates rs) = take 1 (filter (\<lambda>q. subset_key q = k) rs)"
  by (simp add: drop_duplicates_def drop_duplicates_from_filter)

lemma drop_duplicates_from_keys:
  "subset_key ` set (drop_duplicates_from seen rs) = subset_key ` set rs - set seen"
  by (induction rs arbitrary: seen) auto

lemma drop_duplicates_from_distinct:
  "distinct (map subset_key (drop_duplicates_from seen rs))"
proof (induction rs arbitrary: seen)
  case Nil
  then show ?case by simp
next
  case (Cons r rs)
  have "subset_key r \<notin> subset_key ` set (drop_duplicates_from (subset_key r # seen) rs)"
    by (simp add: drop_duplicates_from_keys)
  with Cons show ?case by simp
qed

lemma drop_duplicates_distinct: "distinct (map subset_key (drop_duplicates rs))"
  by (simp add: drop_duplicates_def drop_duplicates_from_distinct)

lemma drop_duplicates_keys:
  "subset_key ` set (drop_duplicates rs) = subset_key ` set rs"
  by (simp add: drop_duplicates_def drop_duplicates_from_keys)

lemma drop_duplicates_Nil: "drop_duplicates [] = []"
  by (simp add: drop_duplicates_def)

lemma process_pdfs_table:
  "process_pdfs eng n pdf_files = Inr table \<Longrightarrow>
   table = drop_duplicates (merge_results eng pdf_files)"
  by (auto simp: process_pdfs_def Let_def drop_duplicates_Nil split: if_splits)

lemma first_of_key_kept:
  assumes "rs = xs @ r1 # ys @ r2 # zs"
    and "subset_key r2 = subset_key r1"
    and "subset_key r1 \<notin> subset_key ` set xs"
    and "StoreName r2 \<noteq> StoreName r1"
  shows "r1 \<in> set (drop_duplicates rs) \<and> r2 \<notin> set (drop_duplicates rs)"
proof -
  let ?k = "subset_key r1"
  have "\<forall>q \<in> set xs. subset_key q \<noteq> ?k" using assms(3) by (metis imageI)
  then have "filter (\<lambda>q. subset_key q = ?k) xs = []" by (simp add: filter_empty_conv)
  then have "take 1 (filter (\<lambda>q. subset_key q = ?k) rs) = [r1]" using assms(1) by simp
  then have kept: "filter (\<lambda>q. subset_key q = ?k) (drop_duplicates rs) = [r1]"
    by (simp add: drop_duplicates_filter)
  then have "r1 \<in> set (filter (\<lambda>q. subset_key q = ?k) (drop_duplicates rs))" by simp
  then have a: "r1 \<in> set (drop_duplicates rs)" by simp
  have b: "r2 \<notin> set (drop_duplicates rs)"
  proof
    assume "r2 \<in> set (drop_duplicates rs)"
    then have "r2 \<in> set (filter (\<lambda>q. subset_key q = ?k) (drop_duplicates rs))"
      using assms(2) by simp
    with kept have "r2 = r1" by simp
    with assms(4) show False by simp
  qed
  from a b show ?thesis ..
qed

lemma sample_merge_a:
  "merge_results (sample_engine 0 sample_docs) [''a/x.pdf''] =
     [\<lparr>RouteID = ''12345678'', LocationNumber = ''1234'', StoreName = ''A'', PDF = ''x.pdf'', PageNumber = 1\<rparr>,
      \<lparr>RouteID = ''12345678'', LocationNumber = ''1234'', StoreName = ''A'', PDF = ''x.pdf'', PageNumber = 1\<rparr>]"
  by (simp add: merge_results_def sample_results_a)

text \<open>
  C6. The table \<open>process_pdfs\<close> returns is the merged list of all worker outputs after
  one pass of \<open>drop_duplicates\<close>: no two of its rows agree on RouteID, LocationNumber,
  PDF and PageNumber, and every key of the merged list is still there. The field
  extractor does not deduplicate: a page with two mentions of a route yields the same
  record twice.
\<close>

theorem one_row_per_key:
  "(process_pdfs eng n pdf_files = Inr table \<longrightarrow>
      table = drop_duplicates (merge_results eng pdf_files)
      \<and> distinct (map subset_key table)
      \<and> subset_key ` set table = subset_key ` set (merge_results eng pdf_files))
   \<and> \<not> distinct (fst (extract_info_from_page (sample_engine 0 docs)
          (''Route:12345678 Route:12345678 To 1 1234-A'', [])))"
proof (intro conjI impI)
  assume "process_pdfs eng n pdf_files = Inr table"
  then have t: "table = drop_duplicates (merge_results eng pdf_files)" by (rule process_pdfs_table)
  then show "table = drop_duplicates (merge_results eng pdf_files)" .
  from t show "distinct (map subset_key table)" by (simp add: drop_duplicates_distinct)
  from t show "subset_key ` set table = subset_key ` set (merge_results eng pdf_files)"
    by (simp add: drop_duplicates_keys)
next
  show "\<not> distinct (fst (extract_info_from_page (sample_engine 0 docs)
          (''Route:12345678 Route:12345678 To 1 1234-A'', [])))"
    by (simp add: sample_page_a)
qed

theorem one_row_per_key_witness:
  "process_pdfs (sample_engine 0 sample_docs) 2 [''a/x.pdf''] =
     Inr [\<lparr>RouteID = ''12345678'', LocationNumber = ''1234'', StoreName = ''A'', PDF = ''x.pdf'', PageNumber = 1\<rparr>]
   \<and> length (merge_results (sample_engine 0 sample_docs) [''a/x.pdf'']) = 2
   \<and> distinct (map subset_key
        [\<lparr>RouteID = ''12345678'', LocationNumber = ''1234'', StoreName = ''A'', PDF = ''x.pdf'', PageNumber = 1\<rparr>])"
proof -
  let ?row = "\<lparr>RouteID = ''12345678'', LocationNumber = ''1234'', StoreName = ''A'', PDF = ''x.pdf'', PageNumber = 1\<rparr>"
  have p: "process_pdfs (sample_engine 0 sample_docs) 2 [''a/x.pdf''] = Inr [?row]"
    by (simp add: process_pdfs_def pool_size_def sample_merge_a drop_duplicates_def subset_key_def)
  with one_row_per_key [of "sample_engine 0 sample_docs" 2 "[''a/x.pdf'']" "[?row]"]
  have "distinct (map subset_key [?row])" by blast
  with p show ?thesis by (simp add: sample_merge_a)
qed

text \<open>
  C10. StoreName is not part of the key: for every key the table keeps exactly the
  first record of the merged list that has it. So of two merged records with one key
  and different store names, the one that arrived first stays and the other is gone.
\<close>

theorem first_store_name_kept:
  "(\<forall>k. filter (\<lambda>q. subset_key q = k) (drop_duplicates rs)
         = take 1 (filter (\<lambda>q. subset_key q = k) rs))
   \<and> (process_pdfs eng n pdf_files = Inr table
       \<and> merge_results eng pdf_files = xs @ r1 # ys @ r2 # zs
       \<and> subset_key r2 = subset_key r1
       \<and> subset_key r1 \<notin> subset_key ` set xs
       \<and> StoreName r2 \<noteq> StoreName r1
      \<longrightarrow> r1 \<in> set table \<and> r2 \<notin> set table)"
proof (intro conjI allI impI)
  fix k
  show "filter (\<lambda>q. subset_key q = k) (drop_duplicates rs)
        = take 1 (filter (\<lambda>q. subset_key q = k) rs)"
    by (rule drop_duplicates_filter)
next
  assume a: "process_pdfs eng n pdf_files = Inr table
       \<and> merge_results eng pdf_files = xs @ r1 # ys @ r2 # zs
       \<and> subset_key r2 = subset_key r1
       \<and> subset_key r1 \<notin> subset_key ` set xs
       \<and> StoreName r2 \<noteq> StoreName r1"
  then have "process_pdfs eng n pdf_files = Inr table" by blast
  then have t: "table = drop_duplicates (merge_results eng pdf_files)"
    by (rule process_pdfs_table)
  from a have "r1 \<in> set (drop_duplicates (merge_results eng pdf_files))
        \<and> r2 \<notin> set (drop_duplicates (merge_results eng pdf_files))"
    by (intro first_of_key_kept [of _ xs r1 ys r2 zs]) simp_all
  with t show "r1 \<in> set table" "r2 \<notin> set table" by simp_all
qed

theorem first_store_name_kept_witness:
  "process_pdfs (sample_engine 0 sample_docs) 2 [''a/x.pdf'', ''b/x.pdf''] =
     Inr [\<lparr>RouteID = ''12345678'', LocationNumber = ''1234'', StoreName = ''A'', PDF = ''x.pdf'', PageNumber = 1\<rparr>]
   \<and> merge_results (sample_engine 0 sample_docs) [''a/x.pdf'', ''b/x.pdf''] =
     [\<lparr>RouteID = ''12345678'', LocationNumber = ''1234'', StoreName = ''A'', PDF = ''x.pdf'', PageNumber = 1\<rparr>,
      \<lparr>RouteID = ''12345678'', LocationNumber = ''1234'', StoreName = ''A'', PDF = ''x.pdf'', PageNumber = 1\<rparr>,
      \<lparr>RouteID = ''12345678'', LocationNumber = ''1234'', StoreName = ''B'', PDF = ''x.pdf'', PageNumber = 1\<rparr>]
   \<and> \<lparr>RouteID = ''12345678'', LocationNumber = ''1234'', StoreName = ''B'', PDF = ''x.pdf'', PageNumber = 1\<rparr>
       \<notin> set [\<lparr>RouteID = ''12345678'', LocationNumber = ''1234'', StoreName = ''A'', PDF = ''x.pdf'', PageNumber = 1\<rparr>]"
proof -
  let ?a = "\<lparr>RouteID = ''12345678'', LocationNumber = ''1234'', StoreName = ''A'', PDF = ''x.pdf'', PageNumber = 1\<rparr>"
  let ?b = "\<lparr>RouteID = ''12345678'', LocationNumber = ''1234'', StoreName = ''B'', PDF = ''x.pdf'', PageNumber = 1\<rparr>"
  let ?eng = "sample_engine 0 sample_docs"
  have m: "merge_results ?eng [''a/x.pdf'', ''b/x.pdf''] = [] @ ?a # [?a] @ ?b # []"
    by (simp add: merge_results_def sample_results_a sample_results_b)
  have p: "process_pdfs ?eng 2 [''a/x.pdf'', ''b/x.pdf''] = Inr [?a]"
    by (simp add: process_pdfs_def pool_size_def m drop_duplicates_def subset_key_def)
  have "subset_key ?b = subset_key ?a" "subset_key ?a \<notin> subset_key ` set []"
    "StoreName ?b \<noteq> StoreName ?a"
    by (simp_all add: subset_key_def)
  with m p first_store_name_kept [of _ ?eng 2 "[''a/x.pdf'', ''b/x.pdf'']" "[?a]" "[]" ?a "[?a]" ?b "[]"]
  have "?a \<in> set [?a] \<and> ?b \<notin> set [?a]" by blast
  with m p show ?thesis by simp
qed

section \<open>Orientation detection: at most three attempts\<close>

lemma robust_cases:
  "robust_image_to_osd osd img 3 (Suc 0) =
     (case osd img 0 of
        Inr out \<Rightarrow> (Inr out, take 1 osd_schedule)
      | Inl _ \<Rightarrow>
          (case osd img 1 of
             Inr out \<Rightarrow> (Inr out, take 3 osd_schedule)
           | Inl _ \<Rightarrow>
               (case osd img 2 of
                  Inr out \<Rightarrow> (Inr out, take 5 osd_schedule)
                | Inl _ \<Rightarrow> (Inl UnboundLocalError, osd_schedule))))"
  by (simp add: robust_image_to_osd_def osd_schedule_def numeral_3_eq_3 numeral_2_eq_2 split: sum.splits)

lemma robust_all_fail:
  "(\<forall>k<3. isl (osd img k)) \<Longrightarrow>
   robust_image_to_osd osd img 3 1 = (Inl UnboundLocalError, osd_schedule)"
proof -
  assume a: "\<forall>k<3. isl (osd img k)"
  then have "isl (osd img 0)" "isl (osd img 1)" "isl (osd img 2)" by simp_all
  then show ?thesis by (auto simp: robust_cases isl_def)
qed

lemma robust_result:
  "(case robust_image_to_osd osd img 3 1 of
      (r, evs) \<Rightarrow>
        length (filter is_osd_call evs) \<le> 3
        \<and> evs = take (length evs) osd_schedule
        \<and> (\<forall>out. r = Inr out \<longrightarrow>
              (\<exists>k<3. osd img k = Inr out \<and> (\<forall>j<k. isl (osd img j))
                 \<and> evs = take (2 * k + 1) osd_schedule))
        \<and> (isl r \<longrightarrow> r = Inl UnboundLocalError \<and> (\<forall>k<3. isl (osd img k)) \<and> evs = osd_schedule))"
proof (cases "osd img 0")
  case (Inr out)
  then show ?thesis by (auto simp: robust_cases osd_schedule_def)
next
  case a: (Inl e0)
  show ?thesis
  proof (cases "osd img 1")
    case (Inr out)
    with a have "osd img (Suc 0) = Inr out \<and> (\<forall>j<Suc 0. isl (osd img j))" by simp
    with a Inr show ?thesis
      by (simp add: robust_cases osd_schedule_def) (rule exI [of _ "Suc 0"], simp)
  next
    case b: (Inl e1)
    show ?thesis
    proof (cases "osd img 2")
      case (Inr out)
      with a b have "osd img 2 = Inr out \<and> (\<forall>j<2. isl (osd img j))"
        by (simp add: less_Suc_eq numeral_2_eq_2)
      with a b Inr show ?thesis
        by (simp add: robust_cases osd_schedule_def) (rule exI [of _ 2], simp)
    next
      case (Inl e2)
      with a b have "\<forall>k<3. isl (osd img k)" by (simp add: less_Suc_eq numeral_3_eq_3 numeral_2_eq_2)
      with a b Inl show ?thesis by (simp add: robust_cases osd_schedule_def)
    qed
  qed
qed

lemma uncorrected_after_failure:
  assumes "\<forall>k<3. isl (image_to_osd eng page_image k)"
  shows "correct_orientation eng page_image = (page_image, osd_schedule)"
    and "fst (extract_info_from_page eng page_image) =
           (case fst (ocr_passes eng page_image) of
              Inl e \<Rightarrow> []
            | Inr (route_matches, to_matches, xdock_wh_matches) \<Rightarrow>
                pair_routes route_matches to_matches xdock_wh_matches)"
proof -
  from assms have r: "robust_image_to_osd (image_to_osd eng) page_image 3 1
      = (Inl UnboundLocalError, osd_schedule)"
    by (rule robust_all_fail)
  then show c: "correct_orientation eng page_image = (page_image, osd_schedule)"
    by (simp add: correct_orientation_def)
  show "fst (extract_info_from_page eng page_image) =
           (case fst (ocr_passes eng page_image) of
              Inl e \<Rightarrow> []
            | Inr (route_matches, to_matches, xdock_wh_matches) \<Rightarrow>
                pair_routes route_matches to_matches xdock_wh_matches)"
    by (simp add: extract_info_from_page_def c split: prod.splits sum.splits)
qed

lemma sample_ocr_passes:
  "ocr_passes (sample_engine k docs) (t, u) =
     (if findall route_id_pattern t \<noteq> [] then (Inr (pattern_pass t), [OcrCall (t, u)])
      else (Inr (pattern_pass u), [OcrCall (t, u), OcrCall (u, t)]))"
  by (simp add: ocr_passes_def sample_engine_def)

text \<open>
  C4. \<open>robust_image_to_osd\<close> with its defaults calls the orientation detection at most
  three times and sleeps one second after every failed attempt, so between any two
  attempts; it returns the first successful output. When all three attempts fail it
  raises, and \<open>extract_info_from_page\<close> then goes on with the page image as it was
  given: the records of the page are those of the recognition passes on that image.
\<close>

theorem osd_retries:
  "(case robust_image_to_osd osd img 3 1 of
      (r, evs) \<Rightarrow>
        length (filter is_osd_call evs) \<le> 3
        \<and> evs = take (length evs) osd_schedule
        \<and> (\<forall>out. r = Inr out \<longrightarrow>
              (\<exists>k<3. osd img k = Inr out \<and> (\<forall>j<k. isl (osd img j))
                 \<and> evs = take (2 * k + 1) osd_schedule))
        \<and> (isl r \<longrightarrow> r = Inl UnboundLocalError \<and> (\<forall>k<3. isl (osd img k)) \<and> evs = osd_schedule))
   \<and> ((\<forall>k<3. isl (image_to_osd eng page_image k)) \<longrightarrow>
        isl (fst (robust_image_to_osd (image_to_osd eng) page_image 3 1))
        \<and> correct_orientation eng page_image = (page_image, osd_schedule)
        \<and> fst (extract_info_from_page eng page_image) =
           (case fst (ocr_passes eng page_image) of
              Inl e \<Rightarrow> []
            | Inr (route_matches, to_matches, xdock_wh_matches) \<Rightarrow>
                pair_routes route_matches to_matches xdock_wh_matches))"
proof (intro conjI impI)
  show "case robust_image_to_osd osd img 3 1 of
      (r, evs) \<Rightarrow>
        length (filter is_osd_call evs) \<le> 3
        \<and> evs = take (length evs) osd_schedule
        \<and> (\<forall>out. r = Inr out \<longrightarrow>
              (\<exists>k<3. osd img k = Inr out \<and> (\<forall>j<k. isl (osd img j))
                 \<and> evs = take (2 * k + 1) osd_schedule))
        \<and> (isl r \<longrightarrow> r = Inl UnboundLocalError \<and> (\<forall>k<3. isl (osd img k)) \<and> evs = osd_schedule)"
    by (rule robust_result)
next
  assume a: "\<forall>k<3. isl (image_to_osd eng page_image k)"
  then have "robust_image_to_osd (image_to_osd eng) page_image 3 1
      = (Inl UnboundLocalError, osd_schedule)"
    by (rule robust_all_fail)
  then show "isl (fst (robust_image_to_osd (image_to_osd eng) page_image 3 1))"
    by (simp only: fst_conv sum.disc)
  from a show "correct_orientation eng page_image = (page_image, osd_schedule)"
    by (rule uncorrected_after_failure)
  from a show "fst (extract_info_from_page eng page_image) =
           (case fst (ocr_passes eng page_image) of
              Inl e \<Rightarrow> []
            | Inr (route_matches, to_matches, xdock_wh_matches) \<Rightarrow>
                pair_routes route_matches to_matches xdock_wh_matches)"
    by (rule uncorrected_after_failure)
qed

theorem osd_retries_witness:
  "robust_image_to_osd (image_to_osd (sample_engine 2 sample_docs)) ([], ''Route:12345678 X-Dock WH:1234-B'') 3 1
     = (Inr ''Rotate: 0'', [OsdCall 0, Sleep 1, OsdCall 1, Sleep 1, OsdCall 2])
   \<and> (\<exists>k<3. image_to_osd (sample_engine 2 sample_docs) ([], ''Route:12345678 X-Dock WH:1234-B'') k
          = Inr ''Rotate: 0'')
   \<and> list_all (\<lambda>k. isl (image_to_osd (sample_engine 3 sample_docs) ([], ''Route:12345678 X-Dock WH:1234-B'') k)) [0..<3]
   \<and> correct_orientation (sample_engine 3 sample_docs) ([], ''Route:12345678 X-Dock WH:1234-B'')
     = (([], ''Route:12345678 X-Dock WH:1234-B''),
        [OsdCall 0, Sleep 1, OsdCall 1, Sleep 1, OsdCall 2, Sleep 1])
   \<and> fst (extract_info_from_page (sample_engine 3 sample_docs) ([], ''Route:12345678 X-Dock WH:1234-B''))
     = [(''12345678'', ''1234'', ''B'')]"
proof -
  let ?img = "([], ''Route:12345678 X-Dock WH:1234-B'')"
  let ?e2 = "sample_engine 2 sample_docs"
  let ?e3 = "sample_engine 3 sample_docs"
  have a: "robust_image_to_osd (image_to_osd ?e2) ?img 3 1
     = (Inr ''Rotate: 0'', [OsdCall 0, Sleep 1, OsdCall 1, Sleep 1, OsdCall 2])"
    by (simp add: robust_image_to_osd_def sample_engine_def numeral_3_eq_3)
  from a osd_retries [of "image_to_osd ?e2" ?img ?e3 ?img]
  have first: "\<exists>k<3. image_to_osd ?e2 ?img k = Inr ''Rotate: 0''"
    by auto
  have fails: "\<forall>k<3. isl (image_to_osd ?e3 ?img k)"
    by (simp add: sample_engine_def)
  then have b: "list_all (\<lambda>k. isl (image_to_osd ?e3 ?img k)) [0..<3]"
    by (simp only: all_less_list_all)
  from fails osd_retries [of "image_to_osd ?e2" ?img ?e3 ?img]
  have c: "correct_orientation ?e3 ?img = (?img, osd_schedule)"
    and d: "fst (extract_info_from_page ?e3 ?img) =
           (case fst (ocr_passes ?e3 ?img) of
              Inl e \<Rightarrow> []
            | Inr (route_matches, to_matches, xdock_wh_matches) \<Rightarrow>
                pair_routes route_matches to_matches xdock_wh_matches)"
    by blast+
  have "fst (extract_info_from_page ?e3 ?img) = [(''12345678'', ''1234'', ''B'')]"
    by (simp add: d sample_ocr_passes text_empty text_b pattern_pass_def location_def clean_A)
  with a first b c show ?thesis by (simp add: osd_schedule_def)
qed

section \<open>The 180-degree fallback\<close>

lemma correct_orientation_events:
  "list_all (\<lambda>e. \<not> is_ocr_call e) (snd (correct_orientation eng page_image))"
proof -
  have "list_all (\<lambda>e. \<not> is_ocr_call e) (osd_schedule :: 'a event list)"
    by (simp add: osd_schedule_def)
  then have "\<And>n. list_all (\<lambda>e. \<not> is_ocr_call e) (take n (osd_schedule :: 'a event list))"
    by (auto simp: list_all_iff dest: in_set_takeD)
  moreover have "snd (robust_image_to_osd (image_to_osd eng) page_image 3 1)
      = take (length (snd (robust_image_to_osd (image_to_osd eng) page_image 3 1))) osd_schedule"
    using robust_result [of "image_to_osd eng" page_image] by (auto split: prod.splits)
  ultimately have "list_all (\<lambda>e. \<not> is_ocr_call e)
      (snd (robust_image_to_osd (image_to_osd eng) page_image 3 1))"
    by metis
  then show ?thesis
    by (auto simp: correct_orientation_def split: prod.splits sum.splits)
qed

lemma ocr_passes_first_match:
  "image_to_string eng c = Inr t \<Longrightarrow> findall route_id_pattern t \<noteq> [] \<Longrightarrow>
   ocr_passes eng c = (Inr (pattern_pass t), [OcrCall c])"
  by (simp add: ocr_passes_def)

lemma ocr_passes_fallback:
  "image_to_string eng c = Inr t \<Longrightarrow> findall route_id_pattern t = [] \<Longrightarrow>
   image_to_string eng (rotate eng c 180) = Inr u \<Longrightarrow>
   ocr_passes eng c = (Inr (pattern_pass u), [OcrCall c, OcrCall (rotate eng c 180)])"
  by (simp add: ocr_passes_def)

lemma ocr_passes_calls:
  "image_to_string eng c = Inr t \<Longrightarrow>
   snd (ocr_passes eng c) =
     (if findall route_id_pattern t = [] then [OcrCall c, OcrCall (rotate eng c 180)] else [OcrCall c])"
  by (simp add: ocr_passes_def Let_def split: sum.splits)

lemma extract_info_events:
  "fst (correct_orientation eng page_image) = c \<Longrightarrow>
   filter is_ocr_call (snd (extract_info_from_page eng page_image)) = snd (ocr_passes eng c)"
proof -
  assume c: "fst (correct_orientation eng page_image) = c"
  have a: "filter is_ocr_call (snd (correct_orientation eng page_image)) = []"
    using correct_orientation_events [of eng page_image]
    by (simp add: filter_empty_conv list_all_iff)
  have b: "filter is_ocr_call (snd (ocr_passes eng c)) = snd (ocr_passes eng c)"
    by (simp add: ocr_passes_def Let_def split: sum.splits)
  obtain evs where co: "correct_orientation eng page_image = (c, evs)"
    using c by (cases "correct_orientation eng page_image") simp
  obtain r evs2 where op: "ocr_passes eng c = (r, evs2)" by (cases "ocr_passes eng c")
  from a co have a': "filter is_ocr_call evs = []" by simp
  from b op have b': "filter is_ocr_call evs2 = evs2" by simp
  show ?thesis
    by (simp add: extract_info_from_page_def co op a' b' split: sum.splits prod.splits)
qed

text \<open>
  C2. Let the first recognition pass read the text \<open>t\<close> on the image \<open>c\<close> that the
  orientation step left. The page is recognised a second time, on \<open>c\<close> turned by 180
  degrees, exactly when \<open>t\<close> has no route match, and never a third time. When the
  first pass has route matches the records come from \<open>t\<close>; when it has none and the
  second pass reads \<open>u\<close>, the records come from \<open>u\<close> alone.
\<close>

theorem rotation_fallback:
  "fst (correct_orientation eng page_image) = c \<and> image_to_string eng c = Inr t \<longrightarrow>
     filter is_ocr_call (snd (extract_info_from_page eng page_image)) =
       (if findall route_id_pattern t = [] then [OcrCall c, OcrCall (rotate eng c 180)] else [OcrCall c])
     \<and> (findall route_id_pattern t \<noteq> [] \<longrightarrow>
          fst (extract_info_from_page eng page_image) =
            pair_routes (findall route_id_pattern t) (findall to_pattern t) (findall xdock_wh_pattern t))
     \<and> (findall route_id_pattern t = [] \<and> image_to_string eng (rotate eng c 180) = Inr u \<longrightarrow>
          fst (extract_info_from_page eng page_image) =
            pair_routes (findall route_id_pattern u) (findall to_pattern u) (findall xdock_wh_pattern u))"
proof (intro impI conjI)
  assume a: "fst (correct_orientation eng page_image) = c \<and> image_to_string eng c = Inr t"
  then have "filter is_ocr_call (snd (extract_info_from_page eng page_image)) = snd (ocr_passes eng c)"
    by (simp add: extract_info_events)
  with a show "filter is_ocr_call (snd (extract_info_from_page eng page_image)) =
       (if findall route_id_pattern t = [] then [OcrCall c, OcrCall (rotate eng c 180)] else [OcrCall c])"
    by (simp add: ocr_passes_calls)
next
  assume a: "fst (correct_orientation eng page_image) = c \<and> image_to_string eng c = Inr t"
    and b: "findall route_id_pattern t \<noteq> []"
  then have "ocr_passes eng c = (Inr (pattern_pass t), [OcrCall c])"
    by (simp add: ocr_passes_first_match)
  with a show "fst (extract_info_from_page eng page_image) =
            pair_routes (findall route_id_pattern t) (findall to_pattern t) (findall xdock_wh_pattern t)"
    by (auto simp: extract_info_from_page_def pattern_pass_def split: prod.splits)
next
  assume a: "fst (correct_orientation eng page_image) = c \<and> image_to_string eng c = Inr t"
    and b: "findall route_id_pattern t = [] \<and> image_to_string eng (rotate eng c 180) = Inr u"
  then have "ocr_passes eng c = (Inr (pattern_pass u), [OcrCall c, OcrCall (rotate eng c 180)])"
    by (simp add: ocr_passes_fallback)
  with a show "fst (extract_info_from_page eng page_image) =
            pair_routes (findall route_id_pattern u) (findall to_pattern u) (findall xdock_wh_pattern u)"
    by (auto simp: extract_info_from_page_def pattern_pass_def split: prod.splits)
qed

lemma text_old:
  "findall route_id_pattern ''To 1 1111-Old'' = []"
  "findall to_pattern ''To 1 1111-Old'' = [(''1111'', ''Old'')]"
  by (simp_all add: pattern_eval)

theorem rotation_fallback_witness:
  "fst (correct_orientation (sample_engine 0 sample_docs) (''To 1 1111-Old'', ''Route:12345678 X-Dock WH:1234-B''))
     = (''To 1 1111-Old'', ''Route:12345678 X-Dock WH:1234-B'')
   \<and> image_to_string (sample_engine 0 sample_docs) (''To 1 1111-Old'', ''Route:12345678 X-Dock WH:1234-B'')
     = Inr ''To 1 1111-Old''
   \<and> findall route_id_pattern ''To 1 1111-Old'' = []
   \<and> findall to_pattern ''To 1 1111-Old'' = [(''1111'', ''Old'')]
   \<and> image_to_string (sample_engine 0 sample_docs)
        (rotate (sample_engine 0 sample_docs) (''To 1 1111-Old'', ''Route:12345678 X-Dock WH:1234-B'') 180)
     = Inr ''Route:12345678 X-Dock WH:1234-B''
   \<and> filter is_ocr_call (snd (extract_info_from_page (sample_engine 0 sample_docs)
        (''To 1 1111-Old'', ''Route:12345678 X-Dock WH:1234-B'')))
     = [OcrCall (''To 1 1111-Old'', ''Route:12345678 X-Dock WH:1234-B''),
        OcrCall (''Route:12345678 X-Dock WH:1234-B'', ''To 1 1111-Old'')]
   \<and> fst (extract_info_from_page (sample_engine 0 sample_docs)
        (''To 1 1111-Old'', ''Route:12345678 X-Dock WH:1234-B''))
     = [(''12345678'', ''1234'', ''B'')]
   \<and> findall route_id_pattern ''Route:12345678 X-Dock WH:1234-B'' \<noteq> []
   \<and> filter is_ocr_call (snd (extract_info_from_page (sample_engine 0 sample_docs)
        (''Route:12345678 X-Dock WH:1234-B'', ''To 1 1111-Old'')))
     = [OcrCall (''Route:12345678 X-Dock WH:1234-B'', ''To 1 1111-Old'')]"
proof -
  let ?old = "''To 1 1111-Old''"
  let ?new = "''Route:12345678 X-Dock WH:1234-B''"
  let ?eng = "sample_engine 0 sample_docs"
  have c: "fst (correct_orientation ?eng (?old, ?new)) = (?old, ?new)"
    and c': "fst (correct_orientation ?eng (?new, ?old)) = (?new, ?old)"
    by (simp_all add: sample_orientation)
  have s: "image_to_string ?eng (?old, ?new) = Inr ?old"
    and s': "image_to_string ?eng (?new, ?old) = Inr ?new"
    and r: "rotate ?eng (?old, ?new) 180 = (?new, ?old)"
    by (simp_all add: sample_engine_def)
  from r s' have s2: "image_to_string ?eng (rotate ?eng (?old, ?new) 180) = Inr ?new" by simp
  have n: "findall route_id_pattern ?new \<noteq> []" by (simp add: text_b)
  from c s s2 text_old(1) rotation_fallback [of ?eng "(?old, ?new)" "(?old, ?new)" ?old ?new]
  have "filter is_ocr_call (snd (extract_info_from_page ?eng (?old, ?new)))
          = [OcrCall (?old, ?new), OcrCall (rotate ?eng (?old, ?new) 180)]"
    and "fst (extract_info_from_page ?eng (?old, ?new))
          = pair_routes (findall route_id_pattern ?new) (findall to_pattern ?new) (findall xdock_wh_pattern ?new)"
    by auto
  moreover from c' s' n rotation_fallback [of ?eng "(?new, ?old)" "(?new, ?old)" ?new]
  have "filter is_ocr_call (snd (extract_info_from_page ?eng (?new, ?old))) = [OcrCall (?new, ?old)]"
    by auto
  ultimately show ?thesis
    using c s s2 n r by (simp add: text_old text_b location_def clean_A)
qed

section \<open>Field combination on the text that was read\<close>

lemma extract_info_first_pass:
  assumes "fst (correct_orientation eng page_image) = c"
    and "image_to_string eng c = Inr t"
    and "findall route_id_pattern t \<noteq> []"
  shows "fst (extract_info_from_page eng page_image) = priority_records t"
proof -
  obtain evs where co: "correct_orientation eng page_image = (c, evs)"
    using assms(1) by (cases "correct_orientation eng page_image") simp
  have "ocr_passes eng c = (Inr (pattern_pass t), [OcrCall c])"
    using assms(2,3) by (rule ocr_passes_first_match)
  then have "fst (extract_info_from_page eng page_image)
      = pair_routes (findall route_id_pattern t) (findall to_pattern t) (findall xdock_wh_pattern t)"
    by (simp add: extract_info_from_page_def co pattern_pass_def)
  then show ?thesis by (simp add: pair_routes_priority priority_records_def)
qed

lemma extract_info_second_pass:
  assumes "fst (correct_orientation eng page_image) = c"
    and "image_to_string eng c = Inr t"
    and "findall route_id_pattern t = []"
    and "image_to_string eng (rotate eng c 180) = Inr u"
  shows "fst (extract_info_from_page eng page_image) = priority_records u"
proof -
  obtain evs where co: "correct_orientation eng page_image = (c, evs)"
    using assms(1) by (cases "correct_orientation eng page_image") simp
  have "ocr_passes eng c = (Inr (pattern_pass u), [OcrCall c, OcrCall (rotate eng c 180)])"
    using assms(2,3,4) by (rule ocr_passes_fallback)
  then have "fst (extract_info_from_page eng page_image)
      = pair_routes (findall route_id_pattern u) (findall to_pattern u) (findall xdock_wh_pattern u)"
    by (simp add: extract_info_from_page_def co pattern_pass_def)
  then show ?thesis by (simp add: pair_routes_priority priority_records_def)
qed

text \<open>
  C1. Let \<open>c\<close> be the image that the orientation step left and \<open>t\<close> the text the
  engine reads on it. When \<open>t\<close> has a route match, the records of the page are those
  of the field-combination rule on \<open>t\<close>: every route match of \<open>t\<close>, in order, with the
  location number and the cleaned store name of the first X-Dock WH match of \<open>t\<close> when
  there is one, wherever the headers stand in \<open>t\<close>; otherwise with those of the first
  To match; and no record at all when \<open>t\<close> has neither header. When \<open>t\<close> has no route
  match and the engine reads \<open>u\<close> on \<open>c\<close> turned by 180 degrees, the records are those
  of the rule on \<open>u\<close>.
\<close>

theorem field_combination_priority:
  "fst (correct_orientation eng page_image) = c \<and> image_to_string eng c = Inr t \<longrightarrow>
     (findall route_id_pattern t \<noteq> [] \<longrightarrow>
        fst (extract_info_from_page eng page_image) = priority_records t)
     \<and> (findall route_id_pattern t = [] \<and> image_to_string eng (rotate eng c 180) = Inr u \<longrightarrow>
        fst (extract_info_from_page eng page_image) = priority_records u)"
proof (intro impI conjI)
  assume a: "fst (correct_orientation eng page_image) = c \<and> image_to_string eng c = Inr t"
    and b: "findall route_id_pattern t \<noteq> []"
  from a have "fst (correct_orientation eng page_image) = c" "image_to_string eng c = Inr t"
    by simp_all
  then show "fst (extract_info_from_page eng page_image) = priority_records t"
    using b by (rule extract_info_first_pass)
next
  assume a: "fst (correct_orientation eng page_image) = c \<and> image_to_string eng c = Inr t"
    and b: "findall route_id_pattern t = [] \<and> image_to_string eng (rotate eng c 180) = Inr u"
  from a b have "fst (correct_orientation eng page_image) = c" "image_to_string eng c = Inr t"
    "findall route_id_pattern t = []" "image_to_string eng (rotate eng c 180) = Inr u"
    by simp_all
  then show "fst (extract_info_from_page eng page_image) = priority_records u"
    by (rule extract_info_second_pass)
qed

lemma text_both:
  "findall route_id_pattern ''Route: 12345678 To 5 1111-A, X-Dock WH: 2222-B.'' = [''12345678'']"
  "findall to_pattern ''Route: 12345678 To 5 1111-A, X-Dock WH: 2222-B.'' = [(''1111'', ''A'')]"
  "findall xdock_wh_pattern ''Route: 12345678 To 5 1111-A, X-Dock WH: 2222-B.'' = [(''2222'', ''B'')]"
  by (simp_all add: pattern_eval)

lemma text_both_swapped:
  "findall route_id_pattern ''Route: 12345678 X-Dock WH: 2222-B, To 5 1111-A.'' = [''12345678'']"
  "findall to_pattern ''Route: 12345678 X-Dock WH: 2222-B, To 5 1111-A.'' = [(''1111'', ''A'')]"
  "findall xdock_wh_pattern ''Route: 12345678 X-Dock WH: 2222-B, To 5 1111-A.'' = [(''2222'', ''B'')]"
  by (simp_all add: pattern_eval)

lemma text_route_only:
  "findall route_id_pattern ''Route:12345678'' = [''12345678'']"
  "findall to_pattern ''Route:12345678'' = []"
  "findall xdock_wh_pattern ''Route:12345678'' = []"
  by (simp_all add: pattern_eval)

lemma sample_reads:
  "fst (correct_orientation (sample_engine 0 sample_docs) img) = img"
  "image_to_string (sample_engine 0 sample_docs) img = Inr (fst img)"
  "rotate (sample_engine 0 sample_docs) img 180 = (snd img, fst img)"
  by (simp_all add: sample_orientation) (simp_all add: sample_engine_def)

theorem field_combination_priority_witness:
  "fst (correct_orientation (sample_engine 0 sample_docs)
          (''Route: 12345678 To 5 1111-A, X-Dock WH: 2222-B.'', []))
     = (''Route: 12345678 To 5 1111-A, X-Dock WH: 2222-B.'', [])
   \<and> image_to_string (sample_engine 0 sample_docs)
          (''Route: 12345678 To 5 1111-A, X-Dock WH: 2222-B.'', [])
     = Inr ''Route: 12345678 To 5 1111-A, X-Dock WH: 2222-B.''
   \<and> findall route_id_pattern ''Route: 12345678 To 5 1111-A, X-Dock WH: 2222-B.'' \<noteq> []
   \<and> fst (extract_info_from_page (sample_engine 0 sample_docs)
          (''Route: 12345678 To 5 1111-A, X-Dock WH: 2222-B.'', []))
     = [(''12345678'', ''2222'', ''B'')]
   \<and> fst (extract_info_from_page (sample_engine 0 sample_docs)
          (''Route: 12345678 X-Dock WH: 2222-B, To 5 1111-A.'', []))
     = [(''12345678'', ''2222'', ''B'')]
   \<and> fst (extract_info_from_page (sample_engine 0 sample_docs)
          (''Route:12345678 Route:12345678 To 1 1234-A'', []))
     = [(''12345678'', ''1234'', ''A''), (''12345678'', ''1234'', ''A'')]
   \<and> fst (extract_info_from_page (sample_engine 0 sample_docs) (''Route:12345678'', []))
     = []
   \<and> findall route_id_pattern [] = []
   \<and> image_to_string (sample_engine 0 sample_docs)
        (rotate (sample_engine 0 sample_docs) ([], ''Route:12345678 X-Dock WH:1234-B'') 180)
     = Inr ''Route:12345678 X-Dock WH:1234-B''
   \<and> fst (extract_info_from_page (sample_engine 0 sample_docs)
          ([], ''Route:12345678 X-Dock WH:1234-B''))
     = [(''12345678'', ''1234'', ''B'')]"
proof -
  let ?eng = "sample_engine 0 sample_docs"
  let ?t1 = "''Route: 12345678 To 5 1111-A, X-Dock WH: 2222-B.''"
  let ?t2 = "''Route: 12345678 X-Dock WH: 2222-B, To 5 1111-A.''"
  let ?t3 = "''Route:12345678 Route:12345678 To 1 1234-A''"
  let ?t4 = "''Route:12345678''"
  let ?t5 = "''Route:12345678 X-Dock WH:1234-B''"
  have r1: "fst (extract_info_from_page ?eng (?t1, [])) = priority_records ?t1"
    using field_combination_priority [of ?eng "(?t1, [])" "(?t1, [])" ?t1]
    by (simp add: sample_reads text_both)
  have r2: "fst (extract_info_from_page ?eng (?t2, [])) = priority_records ?t2"
    using field_combination_priority [of ?eng "(?t2, [])" "(?t2, [])" ?t2]
    by (simp add: sample_reads text_both_swapped)
  have r3: "fst (extract_info_from_page ?eng (?t3, [])) = priority_records ?t3"
    using field_combination_priority [of ?eng "(?t3, [])" "(?t3, [])" ?t3]
    by (simp add: sample_reads text_a)
  have r4: "fst (extract_info_from_page ?eng (?t4, [])) = priority_records ?t4"
    using field_combination_priority [of ?eng "(?t4, [])" "(?t4, [])" ?t4]
    by (simp add: sample_reads text_route_only)
  have r5: "fst (extract_info_from_page ?eng ([], ?t5)) = priority_records ?t5"
    using field_combination_priority [of ?eng "([], ?t5)" "([], ?t5)" "[]" ?t5]
    by (simp add: sample_reads text_empty)
  have p: "priority_records ?t1 = [(''12345678'', ''2222'', ''B'')]"
    "priority_records ?t2 = [(''12345678'', ''2222'', ''B'')]"
    "priority_records ?t3 = [(''12345678'', ''1234'', ''A''), (''12345678'', ''1234'', ''A'')]"
    "priority_records ?t4 = []"
    "priority_records ?t5 = [(''12345678'', ''1234'', ''B'')]"
    by (simp_all add: priority_records_def text_both text_both_swapped text_a text_route_only
          text_b clean_A)
  show ?thesis
    by (simp add: r1 r2 r3 r4 r5 p sample_reads text_both text_empty)
qed

section \<open>Names of the exported pages\<close>














section \<open>Parsing the queries\<close>

lemma valid_query_fullmatch:
  "valid_query a b = (fullmatch_digits 8 a \<and> fullmatch_digits 4 b)"
  by (auto simp: valid_query_def fullmatch_digits_def)

lemma read_rows_present:
  "list_all fields_present rows \<Longrightarrow>
   read_rows rows = map stripped_query (filter well_formed rows)"
proof (induction rows)
  case Nil
  then show ?case by simp
next
  case (Cons row rows)
  then obtain a b where ab: "row_get row ''RouteID'' = Field a"
      "row_get row ''LocationNumber'' = Field b"
    by (cases "row_get row ''RouteID''"; cases "row_get row ''LocationNumber''")
       (auto simp: fields_present_def)
  with Cons show ?case
    by (simp add: valid_query_fullmatch well_formed_def stripped_query_def)
qed

lemma read_rows_valid:
  "q \<in> set (read_rows rows) \<Longrightarrow> fullmatch_digits 8 (fst q) \<and> fullmatch_digits 4 (snd q)"
  by (induction rows)
     (auto simp: valid_query_fullmatch split: cell.splits if_splits)

text \<open>
  C8, as the code has it. Every query returned has a RouteID of exactly eight digits
  and a LocationNumber of exactly four digits. For a file all of whose rows have both
  fields (no line is shorter than the header), the queries returned are, in the order
  of the file, the trimmed fields of exactly the rows whose two fields, after trimming
  surrounding whitespace, have this format: the other rows are skipped and the rows
  after them are still parsed.
\<close>

theorem queries_parsed:
  "(list_all fields_present rows \<longrightarrow>
      read_queries_from_csv (Rows rows) = map stripped_query (filter well_formed rows))
   \<and> (\<forall>q \<in> set (read_queries_from_csv src).
        fullmatch_digits 8 (fst q) \<and> fullmatch_digits 4 (snd q))"
proof (intro conjI impI ballI)
  assume "list_all fields_present rows"
  then show "read_queries_from_csv (Rows rows) = map stripped_query (filter well_formed rows)"
    by (simp add: read_queries_from_csv_def read_rows_present)
next
  fix q
  assume "q \<in> set (read_queries_from_csv src)"
  then have "q \<in> set (case src of Unreadable \<Rightarrow> [] | Rows rows \<Rightarrow> read_rows rows)"
    by (simp add: read_queries_from_csv_def)
  then have "fullmatch_digits 8 (fst q) \<and> fullmatch_digits 4 (snd q)"
    by (cases src) (auto dest: read_rows_valid)
  then show "fullmatch_digits 8 (fst q)" "fullmatch_digits 4 (snd q)" by simp_all
qed

lemma query_row_get:
  "row_get (query_row a b) ''RouteID'' = Field a"
  "row_get (query_row a b) ''LocationNumber'' = Field b"
  by (simp_all add: row_get_def query_row_def)

lemma short_row_get:
  "row_get (short_row a) ''RouteID'' = Field a"
  "row_get (short_row a) ''LocationNumber'' = Missing"
  by (simp_all add: row_get_def short_row_def)

lemma strip_examples:
  "strip '' 12345678'' = ''12345678''" "strip ''12345678'' = ''12345678''"
  "strip ''1234'' = ''1234''" "strip ''123'' = ''123''"
  "strip ''87654321'' = ''87654321''" "strip ''4321'' = ''4321''"
  by (simp_all add: strip_def class_eval)

lemma fullmatch_examples:
  "fullmatch_digits 8 ''12345678''" "fullmatch_digits 4 ''1234''"
  "\<not> fullmatch_digits 8 ''123''" "\<not> fullmatch_digits 8 '' 12345678''"
  "fullmatch_digits 8 ''87654321''" "fullmatch_digits 4 ''4321''"
  by (simp_all add: fullmatch_digits_def class_eval)

theorem queries_parsed_witness:
  "list_all fields_present
     [query_row ''123'' ''1234'', query_row '' 12345678'' ''1234'', query_row ''87654321'' ''4321'']
   \<and> read_queries_from_csv
       (Rows [query_row ''123'' ''1234'', query_row '' 12345678'' ''1234'',
              query_row ''87654321'' ''4321''])
     = [(''12345678'', ''1234''), (''87654321'', ''4321'')]
   \<and> fullmatch_digits 8 ''12345678'' \<and> fullmatch_digits 4 ''1234''"
proof -
  let ?rows = "[query_row ''123'' ''1234'', query_row '' 12345678'' ''1234'',
              query_row ''87654321'' ''4321'']"
  have p: "list_all fields_present ?rows"
    by (simp add: fields_present_def query_row_get)
  with queries_parsed [of ?rows "Rows ?rows"]
  have e: "read_queries_from_csv (Rows ?rows) = map stripped_query (filter well_formed ?rows)"
    and v: "\<forall>q \<in> set (read_queries_from_csv (Rows ?rows)).
        fullmatch_digits 8 (fst q) \<and> fullmatch_digits 4 (snd q)"
    by blast+
  have r: "read_queries_from_csv (Rows ?rows) = [(''12345678'', ''1234''), (''87654321'', ''4321'')]"
    by (simp add: e well_formed_def stripped_query_def query_row_get strip_examples
          fullmatch_examples)
  with v have "fullmatch_digits 8 ''12345678'' \<and> fullmatch_digits 4 ''1234''" by simp
  with p r show ?thesis by simp
qed

text \<open>
  C8, as the claim words it, fails twice. A RouteID field of nine characters, a space
  and eight digits, is included. A line that ends after its first field stops the
  parsing: the well-formed row after it is not returned.
\<close>

theorem queries_parsed_counterexample:
  "read_queries_from_csv (Rows [query_row '' 12345678'' ''1234'']) = [(''12345678'', ''1234'')]
   \<and> \<not> fullmatch_digits 8 '' 12345678''
   \<and> read_queries_from_csv (Rows [short_row ''12345678'', query_row ''87654321'' ''4321'']) = []
   \<and> fullmatch_digits 8 ''87654321'' \<and> fullmatch_digits 4 ''4321''"
  by (simp add: read_queries_from_csv_def query_row_get short_row_get strip_examples
        fullmatch_examples valid_query_fullmatch)

section \<open>Exit status\<close>

lemma process_pdfs_Inr:
  "1 \<le> pool_size n \<Longrightarrow> \<exists>table. process_pdfs eng n pdf_files = Inr table"
  by (simp add: process_pdfs_def Let_def)

text \<open>
  C5, as the code has it. When the PDF directory or the query file is missing, the
  process exits with status 1 before any step has run. Otherwise, given a machine on
  which the worker pool can be created, the extraction and the saving of the table run
  first and the queries are read after them: with no valid query the process exits
  with status 1 at that point, before any page is exported, and with a valid query it
  runs to the end with status 0, whatever the engine did on the pages.
\<close>

theorem exit_behaviour:
  "(\<not> pdf_directory_exists w \<or> \<not> csv_path_exists w \<longrightarrow>
      exit_status (main w) = 1 \<and> steps_run (main w) = [])
   \<and> (pdf_directory_exists w \<and> csv_path_exists w \<and> 1 \<le> pool_size (cpus w) \<longrightarrow>
        (read_queries_from_csv (queries_csv w) = [] \<longrightarrow>
           exit_status (main w) = 1
           \<and> steps_run (main w) = [ProcessPdfs, SaveResults, ReadQueries])
        \<and> (read_queries_from_csv (queries_csv w) \<noteq> [] \<longrightarrow>
             exit_status (main w) = 0
             \<and> steps_run (main w) = [ProcessPdfs, SaveResults, ReadQueries, SearchAndSave]))"
proof (intro conjI impI)
  assume "\<not> pdf_directory_exists w \<or> \<not> csv_path_exists w"
  then show "exit_status (main w) = 1" "steps_run (main w) = []"
    by (auto simp: main_def exit_status_def steps_run_def)
next
  assume a: "pdf_directory_exists w \<and> csv_path_exists w \<and> 1 \<le> pool_size (cpus w)"
    and q: "read_queries_from_csv (queries_csv w) = []"
  from a obtain table where "process_pdfs (ocr w) (cpus w) (walked_pdfs w) = Inr table"
    using process_pdfs_Inr by blast
  with a q show "exit_status (main w) = 1"
    "steps_run (main w) = [ProcessPdfs, SaveResults, ReadQueries]"
    by (simp_all add: main_def exit_status_def steps_run_def)
next
  assume a: "pdf_directory_exists w \<and> csv_path_exists w \<and> 1 \<le> pool_size (cpus w)"
    and q: "read_queries_from_csv (queries_csv w) \<noteq> []"
  from a obtain table where "process_pdfs (ocr w) (cpus w) (walked_pdfs w) = Inr table"
    using process_pdfs_Inr by blast
  with a q show "exit_status (main w) = 0"
    "steps_run (main w) = [ProcessPdfs, SaveResults, ReadQueries, SearchAndSave]"
    by (simp_all add: main_def exit_status_def steps_run_def Let_def)
qed

lemma sample_world_fields:
  "pdf_directory_exists (sample_world d c src) = d"
  "csv_path_exists (sample_world d c src) = c"
  "cpus (sample_world d c src) = 2"
  "queries_csv (sample_world d c src) = src"
  by (simp_all add: sample_world_def)

lemma one_query:
  "read_queries_from_csv (Rows [query_row ''12345678'' ''1234'']) = [(''12345678'', ''1234'')]"
  by (simp add: read_queries_from_csv_def query_row_get strip_examples fullmatch_examples
        valid_query_fullmatch)

theorem exit_behaviour_witness:
  "\<not> pdf_directory_exists (sample_world False True (Rows []))
   \<and> exit_status (main (sample_world False True (Rows []))) = 1
   \<and> steps_run (main (sample_world False True (Rows []))) = []
   \<and> \<not> csv_path_exists (sample_world True False (Rows []))
   \<and> exit_status (main (sample_world True False (Rows []))) = 1
   \<and> steps_run (main (sample_world True False (Rows []))) = []
   \<and> pdf_directory_exists (sample_world True True (Rows []))
   \<and> csv_path_exists (sample_world True True (Rows []))
   \<and> 1 \<le> pool_size (cpus (sample_world True True (Rows [])))
   \<and> read_queries_from_csv (queries_csv (sample_world True True (Rows []))) = []
   \<and> exit_status (main (sample_world True True (Rows []))) = 1
   \<and> steps_run (main (sample_world True True (Rows []))) = [ProcessPdfs, SaveResults, ReadQueries]
   \<and> read_queries_from_csv (queries_csv (sample_world True True (Rows [query_row ''12345678'' ''1234''])))
       = [(''12345678'', ''1234'')]
   \<and> exit_status (main (sample_world True True (Rows [query_row ''12345678'' ''1234'']))) = 0
   \<and> steps_run (main (sample_world True True (Rows [query_row ''12345678'' ''1234''])))
       = [ProcessPdfs, SaveResults, ReadQueries, SearchAndSave]"
proof -
  let ?w0 = "sample_world True False (Rows [])"
  let ?w1 = "sample_world False True (Rows [])"
  let ?w2 = "sample_world True True (Rows [])"
  let ?w3 = "sample_world True True (Rows [query_row ''12345678'' ''1234''])"
  have h1: "\<not> pdf_directory_exists ?w1" by (simp add: sample_world_fields)
  have h2: "pdf_directory_exists ?w2 \<and> csv_path_exists ?w2 \<and> 1 \<le> pool_size (cpus ?w2)"
    "read_queries_from_csv (queries_csv ?w2) = []"
    by (simp_all add: sample_world_fields pool_size_def read_queries_from_csv_def)
  have h3: "pdf_directory_exists ?w3 \<and> csv_path_exists ?w3 \<and> 1 \<le> pool_size (cpus ?w3)"
    "read_queries_from_csv (queries_csv ?w3) = [(''12345678'', ''1234'')]"
    by (simp_all add: sample_world_fields pool_size_def one_query)
  from h1 exit_behaviour [of ?w1]
  have c1: "exit_status (main ?w1) = 1 \<and> steps_run (main ?w1) = []" by blast
  have h0: "\<not> csv_path_exists ?w0" by (simp add: sample_world_fields)
  with exit_behaviour [of ?w0]
  have c0: "exit_status (main ?w0) = 1 \<and> steps_run (main ?w0) = []" by blast
  from h2 exit_behaviour [of ?w2]
  have c2: "exit_status (main ?w2) = 1
      \<and> steps_run (main ?w2) = [ProcessPdfs, SaveResults, ReadQueries]" by blast
  from h3 have "read_queries_from_csv (queries_csv ?w3) \<noteq> []" by simp
  with h3(1) exit_behaviour [of ?w3]
  have c3: "exit_status (main ?w3) = 0
      \<and> steps_run (main ?w3) = [ProcessPdfs, SaveResults, ReadQueries, SearchAndSave]" by blast
  from h0 h1 h2 h3 c0 c1 c2 c3 show ?thesis by simp
qed

text \<open>
  C5, as the claim words it, fails: with both inputs present and no valid query the
  process exits with status 1 after the extraction has run.
\<close>

theorem exit_behaviour_counterexample:
  "pdf_directory_exists (sample_world True True (Rows []))
   \<and> csv_path_exists (sample_world True True (Rows []))
   \<and> read_queries_from_csv (queries_csv (sample_world True True (Rows []))) = []
   \<and> exit_status (main (sample_world True True (Rows []))) = 1
   \<and> ProcessPdfs \<in> set (steps_run (main (sample_world True True (Rows []))))"
  by (simp add: main_def sample_world_def exit_status_def steps_run_def process_pdfs_def
        pool_size_def read_queries_from_csv_def Let_def)

end
